theory Spec2Isabelle
  imports Main "HOL-Library.Product_Lexorder"
begin

section \<open>Strings and characters\<close>

text \<open>
  A Python \<open>str\<close> is modelled as a \<open>string\<close> whose characters are the code points
  below 256. The character classes follow what Python's \<open>re\<close> module and \<open>str\<close>
  methods do on those code points.
\<close>

definition code :: "char \<Rightarrow> nat" where
  "code c = of_char c"

definition is_digit :: "char \<Rightarrow> bool" where
  \<comment> \<open>\<open>\d\<close>: the decimal digits.\<close>
  "is_digit c = (48 \<le> code c \<and> code c \<le> 57)"

definition is_space :: "char \<Rightarrow> bool" where
  \<comment> \<open>\<open>\s\<close> and \<open>str.isspace\<close>: tab to carriage return, the separators 28 to 31,
      the space, NEL and the no-break space.\<close>
  "is_space c = (let n = code c in
     (9 \<le> n \<and> n \<le> 13) \<or> (28 \<le> n \<and> n \<le> 32) \<or> n = 133 \<or> n = 160)"

definition is_upper :: "char \<Rightarrow> bool" where
  "is_upper c = (let n = code c in
     (65 \<le> n \<and> n \<le> 90) \<or> (192 \<le> n \<and> n \<le> 222 \<and> n \<noteq> 215))"

definition is_word :: "char \<Rightarrow> bool" where
  \<comment> \<open>\<open>\w\<close>: alphanumeric code points and the underscore.\<close>
  "is_word c = (let n = code c in
     (48 \<le> n \<and> n \<le> 57) \<or> (65 \<le> n \<and> n \<le> 90) \<or> (97 \<le> n \<and> n \<le> 122) \<or> n = 95 \<or>
     n = 170 \<or> n = 178 \<or> n = 179 \<or> n = 181 \<or> n = 185 \<or> n = 186 \<or>
     (188 \<le> n \<and> n \<le> 190) \<or> (192 \<le> n \<and> n \<le> 214) \<or> (216 \<le> n \<and> n \<le> 246) \<or>
     (248 \<le> n \<and> n \<le> 255))"

definition lower_char :: "char \<Rightarrow> char" where
  "lower_char c = (if is_upper c then char_of (code c + 32) else c)"

definition lower :: "string \<Rightarrow> string" where
  \<comment> \<open>\<open>str.lower()\<close>\<close>
  "lower s = map lower_char s"

definition strip :: "string \<Rightarrow> string" where
  \<comment> \<open>\<open>str.strip()\<close>\<close>
  "strip s = rev (dropWhile is_space (rev (dropWhile is_space s)))"

fun split_on :: "char \<Rightarrow> string \<Rightarrow> string list" where
  \<comment> \<open>\<open>s.split(c)\<close> for a one-character separator\<close>
  "split_on c [] = [[]]"
| "split_on c (x # xs) =
     (if x = c then [] # split_on c xs
      else (case split_on c xs of [] \<Rightarrow> [[x]] | w # ws \<Rightarrow> (x # w) # ws))"

fun int_of_digits :: "nat \<Rightarrow> string \<Rightarrow> nat" where
  \<comment> \<open>\<open>int(s)\<close> on a string of decimal digits, with an accumulator\<close>
  "int_of_digits acc [] = acc"
| "int_of_digits acc (c # cs) = int_of_digits (10 * acc + (code c - 48)) cs"

section \<open>Regular expressions\<close>

text \<open>
  The patterns of the program are written in the abstract syntax \<open>rx\<close>. The matcher
  is a backtracking matcher: \<open>ms\<close> lists the ways a pattern can match at a position, in
  the order in which Python's engine tries them, so the head of the list is the match
  that \<open>re.search\<close> reports at that position. A repetition is always over a single
  character class in the patterns of this program.
\<close>

datatype atom =
    Chr char              \<comment> \<open>a literal character\<close>
  | Dot                   \<comment> \<open>\<open>.\<close>: anything but a newline\<close>
  | Digit                 \<comment> \<open>\<open>\d\<close>\<close>
  | Space                 \<comment> \<open>\<open>\s\<close>\<close>
  | OneOf "char list"     \<comment> \<open>\<open>[...]\<close>\<close>
  | NoneOf "char list"    \<comment> \<open>\<open>[^...]\<close>\<close>

datatype rx =
    Eps
  | Str string            \<comment> \<open>a run of literal characters\<close>
  | Atom atom
  | Bnd                   \<comment> \<open>\<open>\b\<close>\<close>
  | Cat rx rx
  | Alt rx rx             \<comment> \<open>\<open>a|b\<close>\<close>
  | Opt rx                \<comment> \<open>\<open>a?\<close>\<close>
  | Star atom             \<comment> \<open>\<open>a*\<close>\<close>
  | Plus atom             \<comment> \<open>\<open>a+\<close>\<close>
  | LazyStar atom         \<comment> \<open>\<open>a*?\<close>\<close>
  | Grp nat rx            \<comment> \<open>the capturing group with the given number\<close>
  | NegAhead rx           \<comment> \<open>\<open>(?!a)\<close>\<close>

text \<open>A match state: the character before the position, the rest of the input, and
  the groups captured so far.\<close>

type_synonym mstate = "char option \<times> string \<times> (nat \<times> string) list"

definition ceq :: "bool \<Rightarrow> char \<Rightarrow> char \<Rightarrow> bool" where
  \<comment> \<open>equality of a pattern character and an input character, under \<open>re.IGNORECASE\<close>
      when the flag is set\<close>
  "ceq ic c x = (if ic then lower_char c = lower_char x else c = x)"

fun am :: "bool \<Rightarrow> atom \<Rightarrow> char \<Rightarrow> bool" where
  "am ic (Chr c) x = ceq ic c x"
| "am ic Dot x = (x \<noteq> CHR 0x0A)"
| "am ic Digit x = is_digit x"
| "am ic Space x = is_space x"
| "am ic (OneOf cs) x = list_ex (\<lambda>c. ceq ic c x) cs"
| "am ic (NoneOf cs) x = (\<not> list_ex (\<lambda>c. ceq ic c x) cs)"

fun str_m :: "bool \<Rightarrow> string \<Rightarrow> mstate \<Rightarrow> mstate list" where
  "str_m ic [] st = [st]"
| "str_m ic (c # cs) (p, [], g) = []"
| "str_m ic (c # cs) (p, x # xs, g) = (if ceq ic c x then str_m ic cs (Some x, xs, g) else [])"

fun star_g :: "bool \<Rightarrow> atom \<Rightarrow> mstate \<Rightarrow> mstate list" where
  \<comment> \<open>greedy repetition: the longest run first\<close>
  "star_g ic a (p, [], g) = [(p, [], g)]"
| "star_g ic a (p, x # xs, g) =
     (if am ic a x then star_g ic a (Some x, xs, g) @ [(p, x # xs, g)] else [(p, x # xs, g)])"

fun star_l :: "bool \<Rightarrow> atom \<Rightarrow> mstate \<Rightarrow> mstate list" where
  \<comment> \<open>lazy repetition: the shortest run first\<close>
  "star_l ic a (p, [], g) = [(p, [], g)]"
| "star_l ic a (p, x # xs, g) =
     (if am ic a x then (p, x # xs, g) # star_l ic a (Some x, xs, g) else [(p, x # xs, g)])"

definition word_opt :: "char option \<Rightarrow> bool" where
  "word_opt p = (case p of None \<Rightarrow> False | Some c \<Rightarrow> is_word c)"

definition next_char :: "string \<Rightarrow> char option" where
  "next_char s = (case s of [] \<Rightarrow> None | x # _ \<Rightarrow> Some x)"

fun atom_m :: "bool \<Rightarrow> atom \<Rightarrow> mstate \<Rightarrow> mstate list" where
  "atom_m ic a (p, [], g) = []"
| "atom_m ic a (p, x # xs, g) = (if am ic a x then [(Some x, xs, g)] else [])"

fun capture :: "nat \<Rightarrow> string \<Rightarrow> mstate \<Rightarrow> mstate" where
  "capture i s (p, r, g) = (p, r, (i, take (length s - length r) s) # g)"

fun ms :: "bool \<Rightarrow> rx \<Rightarrow> mstate \<Rightarrow> mstate list" where
  "ms ic Eps st = [st]"
| "ms ic (Str w) st = str_m ic w st"
| "ms ic (Atom a) st = atom_m ic a st"
| "ms ic Bnd (p, s, g) = (if word_opt p \<noteq> word_opt (next_char s) then [(p, s, g)] else [])"
| "ms ic (Cat a b) st = concat (map (ms ic b) (ms ic a st))"
| "ms ic (Alt a b) st = ms ic a st @ ms ic b st"
| "ms ic (Opt a) st = ms ic a st @ [st]"
| "ms ic (Star a) st = star_g ic a st"
| "ms ic (Plus a) st = concat (map (star_g ic a) (atom_m ic a st))"
| "ms ic (LazyStar a) st = star_l ic a st"
| "ms ic (Grp i a) (p, s, g) = map (capture i s) (ms ic a (p, s, g))"
| "ms ic (NegAhead a) st = (if ms ic a st = [] then [st] else [])"

text \<open>\<open>re.search\<close>: the leftmost position with a match, and there the first match.
  The result is the text before the match, the matched text, the state after it.\<close>

fun search_from :: "bool \<Rightarrow> rx \<Rightarrow> char option \<Rightarrow> string \<Rightarrow> (string \<times> string \<times> mstate) option" where
  "search_from ic r p s =
     (case ms ic r (p, s, []) of
        (p', s', g) # _ \<Rightarrow> Some ([], take (length s - length s') s, (p', s', g))
      | [] \<Rightarrow> (case s of
                 [] \<Rightarrow> None
               | x # xs \<Rightarrow> map_option (\<lambda>(b, m, st). (x # b, m, st)) (search_from ic r (Some x) xs)))"

definition re_search :: "bool \<Rightarrow> rx \<Rightarrow> string \<Rightarrow> (nat \<rightharpoonup> string) option" where
  \<comment> \<open>\<open>re.search(pattern, s, flags)\<close>: \<open>None\<close>, or the groups of the match\<close>
  "re_search ic r s = map_option (\<lambda>(b, m, (p, s', g)). map_of g) (search_from ic r None s)"

definition re_found :: "bool \<Rightarrow> rx \<Rightarrow> string \<Rightarrow> bool" where
  \<comment> \<open>the truth value of \<open>re.search(pattern, s, flags)\<close>\<close>
  "re_found ic r s = (search_from ic r None s \<noteq> None)"

declare search_from.simps [simp del]

text \<open>\<open>re.sub(pattern, repl, s)\<close>: every match, found from left to right, is replaced.
  After a match that consumed input the scan goes on behind it. No pattern this program
  substitutes or lists with \<open>findall\<close> can match the empty string; on an empty match the
  model replaces it and copies one character.\<close>

fun sub_from :: "bool \<Rightarrow> rx \<Rightarrow> string \<Rightarrow> char option \<Rightarrow> string \<Rightarrow> string" where
  "sub_from ic r repl p s =
     (case ms ic r (p, s, []) of
        [] \<Rightarrow> (case s of [] \<Rightarrow> [] | x # xs \<Rightarrow> x # sub_from ic r repl (Some x) xs)
      | (p', s', g) # _ \<Rightarrow>
          (if length s' < length s then repl @ sub_from ic r repl p' s'
           else repl @ (case s of [] \<Rightarrow> [] | x # xs \<Rightarrow> x # sub_from ic r repl (Some x) xs)))"

declare sub_from.simps [simp del]

definition re_sub :: "bool \<Rightarrow> rx \<Rightarrow> string \<Rightarrow> string \<Rightarrow> string" where
  "re_sub ic r repl s = sub_from ic r repl None s"

text \<open>\<open>re.findall\<close> for a pattern with one group: the text of group 1 in every match.\<close>

definition group1 :: "(nat \<times> string) list \<Rightarrow> string" where
  "group1 g = (case map_of g 1 of None \<Rightarrow> [] | Some w \<Rightarrow> w)"

fun findall_from :: "bool \<Rightarrow> rx \<Rightarrow> char option \<Rightarrow> string \<Rightarrow> string list" where
  "findall_from ic r p s =
     (case ms ic r (p, s, []) of
        [] \<Rightarrow> (case s of [] \<Rightarrow> [] | x # xs \<Rightarrow> findall_from ic r (Some x) xs)
      | (p', s', g) # _ \<Rightarrow>
          (if length s' < length s then group1 g # findall_from ic r p' s'
           else group1 g # (case s of [] \<Rightarrow> [] | x # xs \<Rightarrow> findall_from ic r (Some x) xs)))"

declare findall_from.simps [simp del]

definition re_findall :: "bool \<Rightarrow> rx \<Rightarrow> string \<Rightarrow> string list" where
  "re_findall ic r s = findall_from ic r None s"

text \<open>Helpers to write the pattern tables.\<close>

fun cat :: "rx list \<Rightarrow> rx" where
  "cat [] = Eps"
| "cat [r] = r"
| "cat (r # rs) = Cat r (cat rs)"

definition wb :: "string \<Rightarrow> rx" where
  \<comment> \<open>\<open>\bword\b\<close>\<close>
  "wb w = cat [Bnd, Str w, Bnd]"

definition par :: "string \<Rightarrow> rx" where
  \<comment> \<open>\<open>\(word\)\<close>\<close>
  "par w = Str (''('' @ w @ '')'')"

definition brk :: "string \<Rightarrow> rx" where
  \<comment> \<open>\<open>\[word\]\<close>\<close>
  "brk w = Str (''['' @ w @ '']'')"

section \<open>The pattern tables of \<open>ROMAnalyzer.__init__\<close>\<close>

definition region_patterns :: "(string \<times> rx list) list" where
  "region_patterns = [
    (''USA'', [cat [Str ''(US'', Opt (Str ''A''), Str '')''], par ''US'', par ''U'', par ''NA'',
               cat [Bnd, Str ''US'', Opt (Str ''A''), Bnd], wb ''US'', wb ''NA'']),
    (''Europe'', [cat [Str ''(Europ'', Opt (Str ''e''), Str '')''], par ''EU'', par ''E'', par ''PAL'',
               cat [Bnd, Str ''Europ'', Opt (Str ''e''), Bnd], wb ''EU'', wb ''PAL'']),
    (''Japan'', [cat [Str ''(Japa'', Opt (Str ''n''), Str '')''], par ''JP'', par ''J'', par ''NTSC-J'',
               cat [Bnd, Str ''Japa'', Opt (Str ''n''), Bnd], wb ''JP'', wb ''J'']),
    (''World'', [par ''World'', par ''W'', wb ''World'', wb ''W'']),
    (''Asia'', [par ''Asia'', par ''As'', wb ''Asia'', wb ''As'']),
    (''Australia'', [par ''Australia'', par ''AU'', par ''AUS'', wb ''Australia'', wb ''AU'', wb ''AUS'']),
    (''Brazil'', [par ''Brazil'', par ''BR'', wb ''Brazil'', wb ''BR'']),
    (''Canada'', [par ''Canada'', par ''CA'', wb ''Canada'', wb ''CA'']),
    (''China'', [par ''China'', par ''CN'', wb ''China'', wb ''CN'']),
    (''France'', [par ''France'', par ''FR'', wb ''France'', wb ''FR'']),
    (''Germany'', [par ''Germany'', par ''DE'', wb ''Germany'', wb ''DE'']),
    (''Italy'', [par ''Italy'', par ''IT'', wb ''Italy'', wb ''IT'']),
    (''Korea'', [par ''Korea'', par ''KR'', wb ''Korea'', wb ''KR'']),
    (''Netherlands'', [par ''Netherlands'', par ''NL'', wb ''Netherlands'', wb ''NL'']),
    (''Spain'', [par ''Spain'', par ''ES'', wb ''Spain'', wb ''ES'']),
    (''Sweden'', [par ''Sweden'', par ''SE'', wb ''Sweden'', wb ''SE'']),
    (''Taiwan'', [par ''Taiwan'', par ''TW'', wb ''Taiwan'', wb ''TW'']),
    (''UK'', [par ''UK'', par ''United Kingdom'', wb ''UK'', wb ''United Kingdom''])]"

definition tagn :: "string \<Rightarrow> string \<Rightarrow> string \<Rightarrow> rx" where
  \<comment> \<open>an opening text, \<open>\s*\d*\<close>, a closing text: \<open>\(Proto\s*\d*\)\<close>\<close>
  "tagn l w r = cat [Str (l @ w), Star Space, Star Digit, Str r]"

definition dumpn :: "string \<Rightarrow> rx" where
  \<comment> \<open>\<open>\[b\d*\]\<close>\<close>
  "dumpn w = cat [Str (''['' @ w), Star Digit, Str '']'']"

definition special_patterns :: "(string \<times> rx list) list" where
  "special_patterns = [
    (''Proto'', [tagn ''('' ''Proto'' '')'', tagn ''('' ''Prototype'' '')'',
                 tagn ''['' ''proto'' '']'', tagn ''['' ''prototype'' '']'']),
    (''Beta'', [tagn ''('' ''Beta'' '')'', tagn ''['' ''beta'' '']'', dumpn ''b'']),
    (''Alpha'', [tagn ''('' ''Alpha'' '')'', tagn ''['' ''alpha'' '']'', dumpn ''a'']),
    (''Demo'', [tagn ''('' ''Demo'' '')'', tagn ''['' ''demo'' '']'', dumpn ''d'']),
    (''Sample'', [tagn ''('' ''Sample'' '')'', tagn ''['' ''sample'' '']'']),
    (''Homebrew'', [par ''Homebrew'', brk ''homebrew'', brk ''h'']),
    (''Hack'', [par ''Hack'', brk ''hack'', cat [Str ''[h'', Plus Digit, Str '']'']]),
    (''Translation'', [par ''Translation'', Str ''[T+'', Str ''[T-'']),
    (''Trainer'', [dumpn ''t'', par ''Trainer'']),
    (''Overdump'', [dumpn ''o'', par ''Overdump'']),
    (''Bad Dump'', [dumpn ''b'', par ''Bad'', brk ''!p'']),
    (''Good Dump'', [brk ''!'', par ''Good'']),
    (''Cracked'', [brk ''cr'', par ''Cracked'']),
    (''Fixed'', [dumpn ''f'', par ''Fixed'']),
    (''Pirate'', [dumpn ''p'', par ''Pirate''])]"

definition translation_patterns :: "rx list" where
  "translation_patterns = [
    cat [Str ''[T+'', LazyStar Dot, Str '']''],
    cat [Str ''[T-'', LazyStar Dot, Str '']''],
    par ''Translation'', par ''Translated'', par ''English'', brk ''English'',
    par ''Eng'', brk ''Eng'',
    cat [Str ''[T&'', LazyStar Dot, Str '']''],
    Str ''English Translation'', Str ''Fan Translation'',
    wb ''Translated'', wb ''English'']"

definition language_code_patterns :: "rx list" where
  "language_code_patterns = [
    cat [Bnd, Grp 1 (Alt (Str ''En'') (Alt (Str ''Fr'') (Alt (Str ''De'') (Alt (Str ''Es'')
      (Alt (Str ''It'') (Alt (Str ''Nl'') (Alt (Str ''Pt'') (Alt (Str ''Sv'') (Alt (Str ''No'')
      (Alt (Str ''Da'') (Alt (Str ''Fi'') (Alt (Str ''Pl'') (Alt (Str ''Ru'') (Alt (Str ''Ja'')
      (Alt (Str ''Ko'') (Str ''Zh'')))))))))))))))), Bnd],
    wb ''Eng'', wb ''Fre'', wb ''Ger'', wb ''Spa'', wb ''Ita'', wb ''Dut'',
    wb ''English'', wb ''French'', wb ''German'', wb ''Spanish'', wb ''Italian'', wb ''Dutch'',
    wb ''Portuguese'', wb ''Swedish'', wb ''Norwegian'', wb ''Danish'', wb ''Finnish'',
    wb ''Polish'', wb ''Russian'', wb ''Japanese'', wb ''Korean'', wb ''Chinese'']"

definition casino_game_patterns :: "rx list" where
  "casino_game_patterns = [
    wb ''casino'', wb ''vegas'', wb ''lasvegas'', wb ''las vegas'', wb ''gambling'',
    wb ''jackpot'', wb ''poker'', wb ''texas hold'', wb ''holdem'', wb ''blackjack'',
    wb ''black jack'', wb ''baccarat'', wb ''solitaire'', wb ''klondike'', wb ''freecell'',
    wb ''pai gow'', wb ''paigow'', wb ''gin rummy'', wb ''rummy'', wb ''roulette'', wb ''craps'',
    wb ''keno'', wb ''bingo'', cat [Bnd, Str ''slot'', Opt (Str ''s''), Bnd],
    wb ''slot machine'', wb ''fruit machine'', wb ''one arm bandit'', wb ''cherry master'',
    wb ''vegas stakes'', wb ''casino kid'', wb ''world class poker'', wb ''caesars palace'',
    wb ''trump castle'', wb ''las vegas dream'', wb ''atlantic city action'',
    wb ''monte carlo casino'', wb ''pachinko'', wb ''mahjong'', wb ''mah jong'', wb ''mah-jong'',
    wb ''hanafuda'', wb ''chuck a luck'',
    cat [Bnd, Str ''wheel of fortune'', Bnd, NegAhead (Str '' - '')], wb ''monte carlo casino'',
    wb ''atlantic city casino'', wb ''reno casino'', wb ''riverboat casino'', wb ''casino chip'',
    wb ''poker chip'', wb ''gaming chip'']"

definition casino_exclusion_patterns :: "rx list" where
  "casino_exclusion_patterns = [
    cat [Bnd, Str ''spider'', Opt (Atom Dot), Str ''man'', Bnd], wb ''venom'', wb ''carnage'',
    wb ''lethal'', wb ''superman'', wb ''batman'',
    cat [Bnd, Str ''x'', Opt (Atom Dot), Str ''men'', Bnd], wb ''avengers'', wb ''marvel'',
    wb ''dc comics'', wb ''wolverine'', wb ''hulk'', wb ''captain america'', wb ''iron man'',
    wb ''justice league'', wb ''star trek'', wb ''starfleet'', wb ''bridge simulator'',
    wb ''star wars'', wb ''enterprise'', wb ''starship'', wb ''alien'',
    cat [Bnd, Str ''space'', Bnd, Star Dot, Bnd, Str ''invaders'', Bnd], wb ''galaga'',
    wb ''skateboard'', wb ''skate'', wb ''snowboard'', wb ''surf'',
    cat [Bnd, Str ''race'', Bnd, NegAhead (cat [Star Dot, Str ''casino''])],
    cat [Bnd, Str ''track'', Bnd, NegAhead (cat [Star Dot, Str ''casino''])], wb ''football'',
    wb ''baseball'', wb ''basketball'', wb ''hockey'', wb ''pokemon'', wb ''digimon'',
    wb ''yu-gi-oh'', wb ''magic the gathering'',
    cat [Bnd, Str ''duel'', Bnd, Star Dot, Bnd, Str ''masters'', Bnd],
    cat [Bnd, Str ''card'', Bnd, Star Dot, Bnd, Str ''battle'', Bnd], wb ''tcg'', wb ''ccg'',
    cat [Bnd, Str ''solitaire'', Bnd, NegAhead (cat [Star Dot, Str ''casino''])],
    cat [Bnd, Str ''pyramid'', Bnd, NegAhead (cat [Star Dot, Str ''casino''])], wb ''mario'',
    wb ''zelda'', wb ''kirby'', wb ''yoshi'', wb ''sonic'', wb ''megaman'', wb ''mega man'',
    wb ''castlevania'', wb ''metroid'', wb ''final fantasy'', wb ''dragon quest'',
    cat [Bnd, Str ''bridge'', Bnd, NegAhead (cat [Star Dot, Str ''casino''])],
    cat [Bnd, Str ''boat'', Bnd, NegAhead (cat [Star Dot, Str ''casino''])],
    cat [Bnd, Str ''chip'', Bnd, NegAhead (cat [Star Dot, Str ''casino''])],
    cat [Bnd, Str ''slot'', Bnd, NegAhead (cat [Star Dot, Str ''machine''])], wb ''monopoly'',
    cat [Bnd, Str ''risk'', Bnd, NegAhead (cat [Star Dot, Str ''casino''])], wb ''scrabble'',
    wb ''chess'', wb ''checkers'',
    cat [Bnd, Str ''go'', Bnd, NegAhead (cat [Star Dot, Str ''casino''])],
    cat [Bnd, Str ''wheel of fortune'', Bnd, Star Dot, Bnd, Str ''game show'', Bnd],
    wb ''jeopardy'', wb ''family feud'', wb ''price is right'', wb ''game show'',
    cat [Bnd, Str ''trivia'', Bnd, NegAhead (cat [Star Dot, Str ''casino''])],
    wb ''street fighter'', wb ''mortal kombat'', wb ''tekken'', wb ''king of fighters'',
    wb ''samurai shodown'']"

definition adult_game_patterns :: "rx list" where
  "adult_game_patterns = [
    wb ''hentai'', wb ''porn'', wb ''porno'', wb ''xxx'', wb ''adult'', wb ''erotic'',
    wb ''sexy'', wb ''nude'', wb ''naked'', wb ''bishoujo'', wb ''ecchi'', wb ''bishounen'',
    cat [Bnd, Str ''eroge'', Opt (Str ''s''), Bnd], wb ''galge'', wb ''otome'',
    wb ''dating sim'', cat [Bnd, Str ''visual novel'', Bnd, Star Dot, Bnd, Str ''adult'', Bnd],
    wb ''renai'', cat [Bnd, Str ''super'', Plus Space, Str ''maruo'', Bnd],
    cat [Bnd, Str ''bishoujo'', Plus Space, Str ''shashinkan'', Bnd],
    cat [Bnd, Str ''studio'', Plus Space, Str ''cut'', Bnd], wb ''bodycon quest'',
    wb ''abakareshi musume'', wb ''honey peach'', wb ''night life'',
    cat [Bnd, Str ''midnight'', Bnd, Star Dot, Bnd, Str ''love'', Bnd], wb ''playboy'',
    wb ''penthouse'', wb ''hustler'', wb ''striptease'',
    cat [Bnd, Str ''strip'', Bnd, Star Dot, Bnd, Str ''poker'', Bnd], wb ''lingerie'',
    wb ''18+'', cat [Bnd, Str ''adult'', Opt (Str ''s''), Str '' only'', Bnd],
    cat [Bnd, Str ''mature'', Bnd, Star Dot, Bnd, Str ''content'', Bnd],
    cat [Bnd, Str ''unlicensed'', Bnd, Star Dot, Bnd, Str ''adult'', Bnd],
    cat [Bnd, Str ''homebrew'', Bnd, Star Dot, Bnd, Str ''adult'', Bnd],
    cat [Bnd, Str ''girl'', Opt (Str ''s''), Bnd, Star Dot, Bnd, Str ''unlocked'', Bnd],
    wb ''seduction'', wb ''temptation'',
    cat [Bnd, Str ''forbidden'', Bnd, Star Dot, Bnd, Str ''love'', Bnd],
    cat [Bnd, Str ''passion'', Bnd, Star Dot, Bnd, Str ''night'', Bnd]]"

definition adult_exclusion_patterns :: "rx list" where
  "adult_exclusion_patterns = [
    wb ''mario'', wb ''zelda'', wb ''pokemon'', wb ''sonic'', wb ''kirby'', wb ''yoshi'',
    wb ''donkey kong'', wb ''megaman'', wb ''mega man'', wb ''final fantasy'',
    wb ''dragon quest'', wb ''chrono'', wb ''secret of'',
    cat [Bnd, Str ''night'', Star Dot, Bnd, Str ''trap'', Bnd],
    cat [Bnd, Str ''midnight'', Star Dot, Bnd, Str ''resistance'', Bnd],
    cat [Bnd, Str ''adult'', Star Dot, Bnd, Str ''swim'', Bnd],
    cat [Bnd, Str ''mature'', Star Dot, Bnd, Str ''tree'', Bnd],
    cat [Bnd, Str ''sexy'', Star Dot, Bnd, Str ''parodius'', Bnd],
    cat [Bnd, Str ''nude'', Star Dot, Bnd, Str ''race'', Bnd],
    cat [Bnd, Str ''nude'', Star Dot, Bnd, Str ''car'', Bnd]]"

text \<open>
  The version patterns, in the order of the source's list. \<open>detect_version\<close> tells the
  three families apart by looking into the pattern text (\<open>'(alpha|beta)' in pattern\<close>,
  \<open>'r(?:ev)?' in pattern or 'revision' in pattern\<close>); the model keeps that verdict next
  to each pattern.
\<close>

datatype vkind = Standard | Revision | AlphaBeta

definition num :: "nat \<Rightarrow> rx" where
  \<comment> \<open>\<open>(\d+)\<close> as group \<open>i\<close>\<close>
  "num i = Grp i (Plus Digit)"

definition dotnum :: "nat \<Rightarrow> rx" where
  \<comment> \<open>\<open>(?:\.(\d+))?\<close> with group \<open>i\<close>\<close>
  "dotnum i = Opt (Cat (Str ''.'') (num i))"

definition standard_patterns :: "rx list" where
  "standard_patterns = [
    cat [Str ''('', Opt (Str ''v''), num 1, Str ''.'', num 2, dotnum 3, Str '')''],
    cat [Str ''['', Opt (Str ''v''), num 1, Str ''.'', num 2, dotnum 3, Str '']''],
    cat [Str ''(ver'', Opt (Str ''.''), Star Space, num 1, dotnum 2, dotnum 3, Str '')''],
    cat [Str ''[ver'', Opt (Str ''.''), Star Space, num 1, dotnum 2, dotnum 3, Str '']''],
    cat [Str ''(version'', Star Space, num 1, dotnum 2, dotnum 3, Str '')''],
    cat [Str ''[version'', Star Space, num 1, dotnum 2, dotnum 3, Str '']'']]"

definition revision_patterns :: "rx list" where
  "revision_patterns = [
    cat [Str ''(r'', Opt (Str ''ev''), Opt (Str ''.''), Star Space, num 1, Str '')''],
    cat [Str ''[r'', Opt (Str ''ev''), Opt (Str ''.''), Star Space, num 1, Str '']''],
    cat [Str ''(revision'', Star Space, num 1, Str '')''],
    cat [Str ''[revision'', Star Space, num 1, Str '']'']]"

definition alpha_beta_patterns :: "rx list" where
  "alpha_beta_patterns = [
    cat [Str ''('', Grp 1 (Alt (Str ''alpha'') (Str ''beta'')), Star Space, num 2, dotnum 3, Str '')''],
    cat [Str ''['', Grp 1 (Alt (Str ''alpha'') (Str ''beta'')), Star Space, num 2, dotnum 3, Str '']'']]"

definition version_patterns :: "(vkind \<times> rx) list" where
  "version_patterns =
     map (Pair Standard) standard_patterns @ map (Pair Revision) revision_patterns @
     map (Pair AlphaBeta) alpha_beta_patterns"

section \<open>Paths\<close>

text \<open>
  \<open>pathlib.Path\<close> on a POSIX system (Python 3.8 to 3.12). A path is a root (empty, one
  slash, or two slashes when the text starts with exactly two) and the components after
  it, those that are neither empty nor \<open>.\<close>. The name is the last component; stem and
  suffix split the name at its last dot, unless that dot is the first or the last
  character.
\<close>

type_synonym path = "string \<times> string list"

definition path_root :: "string \<Rightarrow> string" where
  \<comment> \<open>\<open>posixpath.splitroot\<close>\<close>
  "path_root s =
     (if take 1 s \<noteq> ''/'' then []
      else if take 1 (drop 1 s) \<noteq> ''/'' \<or> take 1 (drop 2 s) = ''/'' then ''/''
      else ''//'')"

definition path_parts :: "string \<Rightarrow> string list" where
  "path_parts s = filter (\<lambda>x. x \<noteq> [] \<and> x \<noteq> ''.'') (split_on CHR ''/'' s)"

definition Path :: "string \<Rightarrow> path" where
  "Path s = (path_root s, path_parts s)"

definition joinpath :: "path \<Rightarrow> string \<Rightarrow> path" where
  \<comment> \<open>\<open>p / s\<close>: a text with a root replaces the path\<close>
  "joinpath p s = (if path_root s \<noteq> [] then Path s else (fst p, snd p @ path_parts s))"

fun join_with :: "string \<Rightarrow> string list \<Rightarrow> string" where
  \<comment> \<open>\<open>sep.join(parts)\<close>\<close>
  "join_with sep [] = []"
| "join_with sep [x] = x"
| "join_with sep (x # y # zs) = x @ sep @ join_with sep (y # zs)"

definition path_str :: "path \<Rightarrow> string" where
  \<comment> \<open>\<open>str(p)\<close>\<close>
  "path_str p = (if fst p = [] \<and> snd p = [] then ''.'' else fst p @ join_with ''/'' (snd p))"

definition name_of :: "path \<Rightarrow> string" where
  \<comment> \<open>\<open>p.name\<close>\<close>
  "name_of p = (case snd p of [] \<Rightarrow> [] | x # xs \<Rightarrow> last (x # xs))"

definition parent :: "path \<Rightarrow> path" where
  \<comment> \<open>\<open>p.parent\<close>\<close>
  "parent p = (fst p, butlast (snd p))"

definition path_name :: "string \<Rightarrow> string" where
  \<comment> \<open>\<open>Path(s).name\<close>\<close>
  "path_name s = name_of (Path s)"

fun rfind :: "char \<Rightarrow> string \<Rightarrow> nat option" where
  \<comment> \<open>\<open>s.rfind(c)\<close>, \<open>None\<close> for \<open>-1\<close>\<close>
  "rfind c [] = None"
| "rfind c (x # xs) =
     (case rfind c xs of Some i \<Rightarrow> Some (Suc i) | None \<Rightarrow> (if x = c then Some 0 else None))"

definition name_stem :: "string \<Rightarrow> string" where
  "name_stem n =
     (case rfind CHR ''.'' n of
        None \<Rightarrow> n
      | Some i \<Rightarrow> if 0 < i \<and> i < length n - 1 then take i n else n)"

definition name_suffix :: "string \<Rightarrow> string" where
  "name_suffix n =
     (case rfind CHR ''.'' n of
        None \<Rightarrow> []
      | Some i \<Rightarrow> if 0 < i \<and> i < length n - 1 then drop i n else [])"

definition stem :: "string \<Rightarrow> string" where
  \<comment> \<open>\<open>Path(s).stem\<close>\<close>
  "stem s = name_stem (path_name s)"

definition suffix :: "string \<Rightarrow> string" where
  \<comment> \<open>\<open>Path(s).suffix\<close>\<close>
  "suffix s = name_suffix (path_name s)"

section \<open>Version detection\<close>

type_synonym version = "nat \<times> nat \<times> nat \<times> nat"

definition int_group :: "(nat \<rightharpoonup> string) \<Rightarrow> nat \<Rightarrow> nat" where
  \<comment> \<open>\<open>int(groups[i-1]) if groups[i-1] else 0\<close>\<close>
  "int_group g i = (case g i of None \<Rightarrow> 0 | Some w \<Rightarrow> if w = [] then 0 else int_of_digits 0 w)"

fun version_of :: "vkind \<Rightarrow> (nat \<rightharpoonup> string) \<Rightarrow> version" where
  "version_of AlphaBeta g =
     (let version_type = lower (case g 1 of None \<Rightarrow> [] | Some w \<Rightarrow> w);
          major = int_group g 2;
          minor = int_group g 3;
          type_priority = (if version_type = ''alpha'' then 0 else 1)
      in (type_priority, major, minor, 0))"
| "version_of Revision g = (2, 0, 0, int_group g 1)"
| "version_of Standard g = (2, int_group g 1, int_group g 2, int_group g 3)"

fun detect_version_in :: "(vkind \<times> rx) list \<Rightarrow> string \<Rightarrow> version" where
  \<comment> \<open>the loop of \<open>detect_version\<close> over the patterns left to try\<close>
  "detect_version_in [] filename = (2, 1, 0, 0)"
| "detect_version_in ((k, r) # ps) filename =
     (case re_search True r filename of
        Some g \<Rightarrow> version_of k g
      | None \<Rightarrow> detect_version_in ps filename)"

definition detect_version :: "string \<Rightarrow> version" where
  "detect_version filename = detect_version_in version_patterns filename"

definition compare_versions :: "version \<Rightarrow> version \<Rightarrow> bool" where
  "compare_versions version1 version2 = (version1 > version2)"

section \<open>The base name\<close>

fun starts_lit :: "char \<Rightarrow> rx \<Rightarrow> bool" where
  \<comment> \<open>the pattern text starts with the escaped character \<open>c\<close>\<close>
  "starts_lit c (Str w) = (case w of [] \<Rightarrow> False | x # _ \<Rightarrow> x = c)"
| "starts_lit c (Cat a b) = starts_lit c a"
| "starts_lit c r = False"

fun ends_lit :: "char \<Rightarrow> rx \<Rightarrow> bool" where
  \<comment> \<open>the pattern text ends with the escaped character \<open>c\<close>\<close>
  "ends_lit c (Str w) = (case w of [] \<Rightarrow> False | x # xs \<Rightarrow> last (x # xs) = c)"
| "ends_lit c (Cat a b) = ends_lit c b"
| "ends_lit c r = False"

definition paren_form :: "rx \<Rightarrow> bool" where
  \<comment> \<open>\<open>pattern.startswith(r'\(') and pattern.endswith(r'\)')\<close>, or the same with
      square brackets: the pattern text opens with an escaped bracket and closes with one\<close>
  "paren_form r = ((starts_lit CHR ''('' r \<and> ends_lit CHR '')'' r) \<or>
                   (starts_lit CHR ''['' r \<and> ends_lit CHR '']'' r))"

definition strip_patterns :: "rx list \<Rightarrow> string \<Rightarrow> string" where
  \<comment> \<open>\<open>for pattern in patterns: name = re.sub(pattern, '', name, flags=re.IGNORECASE)\<close>\<close>
  "strip_patterns ps name = fold (\<lambda>r n. re_sub True r [] n) ps name"

definition get_base_filename :: "string \<Rightarrow> string" where
  "get_base_filename filename =
     (let name = stem filename;
          name = (if lower (suffix name) \<in> set [''.7z'', ''.zip'', ''.rar''] then stem name else name);
          normalized_name = name;
          normalized_name = strip_patterns
             (filter paren_form (concat (map snd region_patterns))) normalized_name;
          normalized_name = strip_patterns (concat (map snd special_patterns)) normalized_name;
          normalized_name = strip_patterns (map snd version_patterns) normalized_name;
          normalized_name = re_sub False (cat [Star Space, Str ''('', Star Space, Str '')'']) [] normalized_name;
          normalized_name = re_sub False (cat [Star Space, Str ''['', Star Space, Str '']'']) [] normalized_name;
          normalized_name = re_sub False (Plus Space) '' '' normalized_name;
          normalized_name = strip normalized_name
      in normalized_name)"

section \<open>Classification of a file name\<close>

definition any_found :: "rx list \<Rightarrow> string \<Rightarrow> bool" where
  \<comment> \<open>\<open>for pattern in patterns: if re.search(pattern, s, re.IGNORECASE): return True\<close>\<close>
  "any_found ps s = list_ex (\<lambda>r. re_found True r s) ps"

definition has_translation :: "string \<Rightarrow> bool" where
  "has_translation filename = any_found translation_patterns filename"

definition is_language_code :: "string \<Rightarrow> bool" where
  "is_language_code text = any_found language_code_patterns text"

definition is_casino_game :: "string \<Rightarrow> bool" where
  "is_casino_game filename =
     (let name = lower (stem filename)
      in if any_found casino_exclusion_patterns name then False
         else any_found casino_game_patterns name)"

definition is_adult_game :: "string \<Rightarrow> bool" where
  "is_adult_game filename =
     (let name = lower (stem filename)
      in if any_found adult_exclusion_patterns name then False
         else any_found adult_game_patterns name)"

text \<open>
  The analyzer object: the two sets of unknown tokens that the detection methods fill,
  and the region priority that \<open>load_config\<close> may replace.
\<close>

record analyzer =
  unknown_regions :: "string set"
  unknown_specials :: "string set"
  region_priority :: "string list"

definition new_analyzer :: analyzer where
  "new_analyzer = \<lparr>unknown_regions = {}, unknown_specials = {},
                    region_priority = [''USA'', ''World'', ''Europe'', ''Japan'']\<rparr>"

definition regions_matching :: "string \<Rightarrow> string list" where
  \<comment> \<open>the regions, in table order, one of whose patterns is found in \<open>s\<close>\<close>
  "regions_matching s = map fst (filter (\<lambda>(region, patterns). any_found patterns s) region_patterns)"

definition append_new :: "string list \<Rightarrow> string list \<Rightarrow> string list" where
  \<comment> \<open>\<open>if region not in regions: regions.append(region)\<close>, for each region found\<close>
  "append_new regions found = fold (\<lambda>region rs. if region \<in> set rs then rs else rs @ [region]) found regions"

definition scan_part :: "string \<Rightarrow> string list \<Rightarrow> string list" where
  "scan_part part regions =
     (if is_language_code part then regions
      else append_new regions (regions_matching (''('' @ part @ '')'')))"

definition scan_groups :: "string \<Rightarrow> string list" where
  \<comment> \<open>the first loop of \<open>detect_regions\<close>, over the bracketed groups and their comma parts\<close>
  "scan_groups filename =
     (let multi_region_matches =
            re_findall False (cat [Atom (OneOf ''(['') , Grp 1 (LazyStar Dot), Atom (OneOf '')]'')]) filename
      in fold (\<lambda>match regions. fold scan_part (map strip (split_on CHR '','' match)) regions)
           multi_region_matches [])"

definition is_special_text :: "string \<Rightarrow> bool" where
  "is_special_text match =
     list_ex (\<lambda>(special, patterns).
        list_ex (\<lambda>r. re_found True r (''('' @ match @ '')'') \<or> re_found True r (''['' @ match @ '']'')) patterns)
       special_patterns"

definition bracketed_texts :: "string \<Rightarrow> string list" where
  \<comment> \<open>\<open>re.findall(r'\(([^)]+)\)', filename) + re.findall(r'\[([^\]]+)\]', filename)\<close>\<close>
  "bracketed_texts filename =
     re_findall False (cat [Str ''('', Grp 1 (Plus (NoneOf '')'')), Str '')'']) filename @
     re_findall False (cat [Str ''['', Grp 1 (Plus (NoneOf '']'')), Str '']'']) filename"

definition log_unknown_regions :: "string \<Rightarrow> analyzer \<Rightarrow> analyzer" where
  "log_unknown_regions filename a =
     fold (\<lambda>match a.
             if CHR '','' \<in> set match then a
             else if \<not> is_special_text match \<and> length match \<le> 20
             then a\<lparr>unknown_regions := insert match (unknown_regions a)\<rparr>
             else a)
          (bracketed_texts filename) a"

definition translation_rule :: "string \<Rightarrow> string list \<Rightarrow> string list" where
  \<comment> \<open>Japanese ROMs with translation tags are treated as USA\<close>
  "translation_rule filename regions =
     (if has_translation filename then
        (let has_japan = ''Japan'' \<in> set regions
         in if has_japan then
              (let regions = filter (\<lambda>r. r \<noteq> ''Japan'') regions
               in if ''USA'' \<notin> set regions then regions @ [''USA''] else regions)
            else if regions = [] \<or> regions = [''Unknown''] then [''USA'']
            else regions)
      else regions)"

definition default_rule :: "string list \<Rightarrow> string list" where
  "default_rule regions = (if regions = [] \<or> regions = [''Unknown''] then [''USA''] else regions)"

definition found_regions :: "string \<Rightarrow> string list" where
  \<comment> \<open>the regions after the two scans: the comma-separated check, then the scan of
      the whole name when the first found nothing\<close>
  "found_regions filename =
     (let regions = scan_groups filename
      in if regions = [] then regions_matching filename else regions)"

definition detect_regions :: "analyzer \<Rightarrow> string \<Rightarrow> string list \<times> analyzer" where
  "detect_regions a filename =
     (let regions = found_regions filename;
          a = (if regions = [] then log_unknown_regions filename a else a);
          regions = translation_rule filename regions;
          regions = default_rule regions
      in (regions, a))"

fun first_in :: "string list \<Rightarrow> string list \<Rightarrow> string option" where
  \<comment> \<open>\<open>for priority_region in self.region_priority: if priority_region in regions: return\<close>\<close>
  "first_in [] regions = None"
| "first_in (priority_region # rest) regions =
     (if priority_region \<in> set regions then Some priority_region else first_in rest regions)"

definition primary_of :: "string list \<Rightarrow> string list \<Rightarrow> string" where
  "primary_of priority regions =
     (case regions of
        [] \<Rightarrow> ''USA''
      | r0 # _ \<Rightarrow> (case first_in priority regions of Some r \<Rightarrow> r | None \<Rightarrow> r0))"

definition get_primary_region :: "analyzer \<Rightarrow> string \<Rightarrow> string \<times> analyzer" where
  "get_primary_region a filename =
     (let (regions, a) = detect_regions a filename
      in (primary_of (region_priority a) regions, a))"

definition found_specials :: "string \<Rightarrow> (string \<times> rx) list" where
  \<comment> \<open>each special kind with the first of its patterns found in the name\<close>
  "found_specials filename =
     concat (map (\<lambda>(special, patterns).
        (case filter (\<lambda>r. re_found True r filename) patterns of
           [] \<Rightarrow> [] | r # _ \<Rightarrow> [(special, r)])) special_patterns)"

definition is_substring :: "string \<Rightarrow> string \<Rightarrow> bool" where
  \<comment> \<open>\<open>w in s\<close>\<close>
  "is_substring w s = list_ex (\<lambda>i. take (length w) (drop i s) = w) [0 ..< Suc (length s)]"

definition log_unknown_specials :: "string \<Rightarrow> rx list \<Rightarrow> analyzer \<Rightarrow> analyzer" where
  "log_unknown_specials filename found_patterns a =
     fold (\<lambda>match a.
        let in_both = (\<lambda>r. re_found True r (''('' @ match @ '')'') \<or> re_found True r (''['' @ match @ '']''));
            is_known = list_ex in_both found_patterns;
            is_known = (if \<not> is_known then list_ex in_both (concat (map snd region_patterns)) else is_known)
        in if \<not> is_known \<and> length match \<le> 20 \<and>
              list_ex (\<lambda>keyword. is_substring keyword (lower match))
                [''v'', ''rev'', ''ver'', ''alt'', ''final'', ''test'', ''debug'']
           then a\<lparr>unknown_specials := insert match (unknown_specials a)\<rparr>
           else a)
       (bracketed_texts filename) a"

definition detect_special_versions :: "analyzer \<Rightarrow> string \<Rightarrow> string list \<times> analyzer" where
  "detect_special_versions a filename =
     (let found = found_specials filename;
          specials = map fst found;
          found_patterns = map snd found
      in (specials, log_unknown_specials filename found_patterns a))"

section \<open>Formats, save states and the best version\<close>

definition save_state_extensions :: "string list" where
  "save_state_extensions = [
    ''.srm'', ''.sav'', ''.rtc'', ''.fla'', ''.st0'', ''.st1'', ''.st2'', ''.st3'', ''.st4'',
    ''.st5'', ''.st6'', ''.st7'', ''.st8'', ''.st9'', ''.fc0'', ''.fc1'', ''.fc2'', ''.fc3'',
    ''.fc4'', ''.fc5'', ''.fc6'', ''.fc7'', ''.fc8'', ''.fc9'', ''.zs0'', ''.zs1'', ''.zs2'',
    ''.zs3'', ''.zs4'', ''.zs5'', ''.zs6'', ''.zs7'', ''.zs8'', ''.zs9'', ''.sm0'', ''.sm1'',
    ''.sm2'', ''.sm3'', ''.sm4'', ''.sm5'', ''.sm6'', ''.sm7'', ''.sm8'', ''.sm9'', ''.vb0'',
    ''.vb1'', ''.vb2'', ''.vb3'', ''.vb4'', ''.vb5'', ''.vb6'', ''.vb7'', ''.vb8'', ''.vb9'',
    ''.ds0'', ''.ds1'', ''.ds2'', ''.ds3'', ''.ds4'', ''.ds5'', ''.ds6'', ''.ds7'', ''.ds8'',
    ''.ds9'']"

text \<open>The dictionary literal of the source, entry by entry; where a key occurs twice the
  later entry is the one Python keeps.\<close>

definition format_preference_entries :: "(string \<times> int) list" where
  "format_preference_entries = [
    (''.zip'', 1), (''.7z'', 1), (''.rar'', 1), (''.rom'', 5), (''.bin'', 5), (''.img'', 5),
    (''.raw'', 5), (''.nes'', 10), (''.fds'', 9), (''.unif'', 8), (''.unf'', 8), (''.nsf'', 6),
    (''.nsfe'', 6), (''.sfc'', 10), (''.smc'', 9), (''.snes'', 10), (''.bs'', 8),
    (''.spc'', 6), (''.gb'', 10), (''.gbc'', 10), (''.cgb'', 10), (''.sgb'', 9), (''.dmg'', 9),
    (''.gbx'', 8), (''.gba'', 10), (''.agb'', 9), (''.mb'', 8), (''.srl'', 9), (''.n64'', 10),
    (''.z64'', 10), (''.v64'', 9), (''.u64'', 8), (''.rom64'', 7), (''.n64rom'', 7),
    (''.usa'', 6), (''.pal'', 6), (''.jap'', 6), (''.nds'', 10), (''.dsi'', 9), (''.ids'', 8),
    (''.srl'', 9), (''.nds.gba'', 7), (''.3ds'', 10), (''.cia'', 9), (''.3dsx'', 8),
    (''.cci'', 7), (''.cxi'', 6), (''.app'', 5), (''.tmd'', 4), (''.tik'', 4), (''.gcm'', 10),
    (''.tgc'', 9), (''.iso'', 9), (''.ciso'', 8), (''.wia'', 8), (''.gcz'', 7), (''.wbfs'', 6),
    (''.rvz'', 6), (''.nkit'', 5), (''.xci'', 10), (''.nsp'', 9), (''.nro'', 8), (''.nca'', 7),
    (''.nacp'', 6), (''.nso'', 6), (''.npdm'', 5), (''.md'', 10), (''.smd'', 9),
    (''.gen'', 10), (''.sg'', 8), (''.sgd'', 8), (''.32x'', 10), (''.32c'', 9), (''.sms'', 10),
    (''.gg'', 10), (''.mvs'', 9), (''.sc'', 8), (''.sf7000'', 7), (''.chd'', 9), (''.cue'', 8),
    (''.gdi'', 8), (''.mds'', 7), (''.ccd'', 7), (''.cdi'', 7), (''.mdf'', 6), (''.nrg'', 5),
    (''.toc'', 6), (''.m3u'', 5), (''.dat'', 4), (''.lst'', 4), (''.pbp'', 9), (''.cso'', 7),
    (''.dax'', 6), (''.prx'', 8), (''.psv'', 8), (''.psx'', 9), (''.ecm'', 6), (''.ape'', 5),
    (''.sub'', 4), (''.psf'', 5), (''.minipsf'', 5), (''.psf2'', 5), (''.minipsf2'', 5),
    (''.ps2'', 9), (''.elf'', 8), (''.irx'', 7), (''.cnf'', 6), (''.pkg'', 8), (''.rap'', 7),
    (''.psn'', 6), (''.p3t'', 5), (''.vpk'', 8), (''.suprx'', 7), (''.skprx'', 6),
    (''.pce'', 10), (''.sgx'', 9), (''.hes'', 6), (''.tg16'', 9), (''.huc'', 8),
    (''.ngp'', 10), (''.ngc'', 9), (''.ngpc'', 10), (''.pocket'', 8), (''.ws'', 10),
    (''.wsc'', 10), (''.pc2'', 8), (''.a26'', 10), (''.a78'', 10), (''.lnx'', 10),
    (''.lyx'', 9), (''.o'', 7), (''.jag'', 10), (''.j64'', 9), (''.abs'', 8), (''.cof'', 7),
    (''.int'', 10), (''.itv'', 9), (''.col'', 10), (''.cv'', 9), (''.vec'', 10), (''.gam'', 8),
    (''.o2'', 10), (''.xbe'', 9), (''.xex'', 8), (''.xcp'', 7), (''.xbx'', 6), (''.xiso'', 8),
    (''.000'', 7), (''.dvd'', 6), (''.god'', 7), (''.xbla'', 6), (''.xbx1'', 5),
    (''.min'', 10), (''.pokemini'', 10), (''.vb'', 10), (''.vboy'', 10), (''.sx1'', 10),
    (''.sx2'', 10), (''.d64'', 10), (''.t64'', 9), (''.prg'', 8), (''.d81'', 9), (''.d82'', 9),
    (''.g64'', 8), (''.p64'', 8), (''.x64'', 8), (''.p00'', 7), (''.s64'', 7), (''.d71'', 8),
    (''.d80'', 8), (''.cas'', 8), (''.wav'', 6), (''.cdt'', 7), (''.tap'', 9), (''.tzx'', 8),
    (''.z80'', 9), (''.sna'', 9), (''.scl'', 8), (''.trd'', 8), (''.adf'', 10), (''.dms'', 8),
    (''.ipf'', 9), (''.hdf'', 8), (''.lha'', 7), (''.lzx'', 6), (''.st'', 10), (''.msa'', 8),
    (''.dim'', 7), (''.stx'', 9), (''.cpc'', 9), (''.msx'', 9), (''.oric'', 8), (''.sam'', 8),
    (''.mgt'', 8), (''.ti99'', 8), (''.tifiles'', 7), (''.apple2'', 9), (''.do'', 8),
    (''.po'', 8), (''.nib'', 7), (''.woz'', 10), (''.m5'', 8), (''.pzx'', 7), (''.coleco'', 8),
    (''.adam'', 8), (''.dragon'', 8), (''.vdk'', 7), (''.dmk'', 7), (''.coco'', 8),
    (''.neo'', 10), (''.aes'', 10), (''.mvs'', 10), (''.ngm'', 9), (''.mame'', 8),
    (''.dol'', 9), (''.wad'', 8), (''.forwarder'', 7), (''.xex'', 9), (''.atr'', 8),
    (''.car'', 8), (''.dsk'', 9), (''.ima'', 8), (''.vfd'', 7), (''.hfe'', 6), (''.mfm'', 5),
    (''.td0'', 6), (''.scummvm'', 8), (''.gog'', 7), (''.dos'', 6), (''.flash'', 5),
    (''.swf'', 4), (''.love'', 7), (''.tic'', 6), (''.bios'', 8), (''.firmware'', 8),
    (''.gz'', 2), (''.bz2'', 2), (''.swc'', 8), (''.fig'', 7), (''.mgd'', 6), (''.ufo'', 6),
    (''.srm'', 3), (''.sav'', 3), (''.rtc'', 3), (''.fla'', 3), (''.st0'', 2), (''.st1'', 2),
    (''.st2'', 2), (''.st3'', 2), (''.st4'', 2), (''.st5'', 2), (''.st6'', 2), (''.st7'', 2),
    (''.st8'', 2), (''.st9'', 2), (''.fc0'', 2), (''.fc1'', 2), (''.fc2'', 2), (''.fc3'', 2),
    (''.fc4'', 2), (''.fc5'', 2), (''.fc6'', 2), (''.fc7'', 2), (''.fc8'', 2), (''.fc9'', 2),
    (''.zs0'', 2), (''.zs1'', 2), (''.zs2'', 2), (''.zs3'', 2), (''.zs4'', 2), (''.zs5'', 2),
    (''.zs6'', 2), (''.zs7'', 2), (''.zs8'', 2), (''.zs9'', 2), (''.sm0'', 2), (''.sm1'', 2),
    (''.sm2'', 2), (''.sm3'', 2), (''.sm4'', 2), (''.sm5'', 2), (''.sm6'', 2), (''.sm7'', 2),
    (''.sm8'', 2), (''.sm9'', 2), (''.vb0'', 2), (''.vb1'', 2), (''.vb2'', 2), (''.vb3'', 2),
    (''.vb4'', 2), (''.vb5'', 2), (''.vb6'', 2), (''.vb7'', 2), (''.vb8'', 2), (''.vb9'', 2),
    (''.ds0'', 2), (''.ds1'', 2), (''.ds2'', 2), (''.ds3'', 2), (''.ds4'', 2), (''.ds5'', 2),
    (''.ds6'', 2), (''.ds7'', 2), (''.ds8'', 2), (''.ds9'', 2)]"

definition format_preference :: "string \<rightharpoonup> int" where
  "format_preference = map_of (rev format_preference_entries)"

definition is_save_state :: "string \<Rightarrow> bool" where
  "is_save_state filename = (lower (suffix filename) \<in> set save_state_extensions)"

definition get_format_preference :: "string \<Rightarrow> int" where
  "get_format_preference filename =
     (let ext = lower (suffix filename)
      in case format_preference ext of Some score \<Rightarrow> score | None \<Rightarrow> 0)"

fun max_by :: "('a \<Rightarrow> 'k::linorder) \<Rightarrow> 'a \<Rightarrow> 'a list \<Rightarrow> 'a" where
  \<comment> \<open>\<open>max(items, key=key)\<close> with the best item so far: the first of the largest\<close>
  "max_by key best [] = best"
| "max_by key best (x # xs) = max_by key (if key best < key x then x else best) xs"

definition get_best_version_rom :: "string list \<Rightarrow> string option" where
  \<comment> \<open>a ROM file is given by its name; \<open>None\<close> is Python's \<open>None\<close>\<close>
  "get_best_version_rom rom_files =
     (if rom_files = [] then None
      else (let actual_roms = filter (\<lambda>rom. \<not> is_save_state rom) rom_files
            in case actual_roms of
                 [] \<Rightarrow> None
               | rom # rest \<Rightarrow>
                   Some (max_by (\<lambda>rom. (detect_version rom, get_format_preference rom)) rom rest)))"

section \<open>The region priority of the configuration\<close>

definition load_region_priority :: "string \<Rightarrow> analyzer \<Rightarrow> analyzer" where
  \<comment> \<open>the \<open>REGION_PRIORITY\<close> part of \<open>load_config\<close>, for the value of \<open>priority_order\<close>\<close>
  "load_region_priority priority_str a =
     (let priority = map strip (split_on CHR '','' priority_str);
          valid_regions = set (map fst region_patterns)
      in if \<not> list_ex (\<lambda>region. region \<in> valid_regions) priority
         then a\<lparr>region_priority := [''USA'', ''World'', ''Europe'', ''Japan'']\<rparr>
         else a\<lparr>region_priority := priority\<rparr>)"

section \<open>Moving files\<close>

text \<open>
  The world as the move operations see it: the paths that exist, whether the next calls
  of \<open>shutil.move\<close> raise (one flag for each call to come, none left meaning success),
  whether the next calls of \<open>print\<close> raise (likewise: the standard output may be unable
  to encode the text, or be closed), and the calls of \<open>shutil.move\<close> made so far with
  their source and destination.
\<close>

record world =
  existing :: "string list"
  faults :: "bool list"
  print_faults :: "bool list"
  attempts :: "(string \<times> string) list"

datatype error = PrintError
  \<comment> \<open>the exception of a \<open>print\<close> inside an exception handler, which nothing catches\<close>

definition shutil_move :: "string \<Rightarrow> string \<Rightarrow> world \<Rightarrow> bool \<times> world" where
  \<comment> \<open>\<open>True\<close> when the move was made, \<open>False\<close> when it raised\<close>
  "shutil_move src dst w =
     (let w = w\<lparr>attempts := attempts w @ [(src, dst)]\<rparr>
      in case faults w of
           [] \<Rightarrow> (True, w\<lparr>existing := dst # existing w\<rparr>)
         | failed # rest \<Rightarrow>
             if failed then (False, w\<lparr>faults := rest\<rparr>)
             else (True, w\<lparr>faults := rest, existing := dst # existing w\<rparr>))"

definition print_error :: "world \<Rightarrow> bool \<times> world" where
  \<comment> \<open>the \<open>print\<close> of the handler: \<open>True\<close> when it returned, \<open>False\<close> when it raised\<close>
  "print_error w =
     (case print_faults w of
        [] \<Rightarrow> (True, w)
      | failed # rest \<Rightarrow> (\<not> failed, w\<lparr>print_faults := rest\<rparr>))"

definition digit_char :: "nat \<Rightarrow> char" where
  "digit_char d = char_of (48 + d)"

function str_nat :: "nat \<Rightarrow> string" where
  \<comment> \<open>the decimal text of a number, as an f-string writes it\<close>
  "str_nat n = (if n < 10 then [digit_char n] else str_nat (n div 10) @ [digit_char (n mod 10)])"
  by pat_completeness auto
termination
  by (relation "measure id") auto

declare str_nat.simps [simp del]

definition longest :: "string list \<Rightarrow> nat" where
  "longest ps = foldr (\<lambda>p m. max (length p) m) ps 0"

definition candidate :: "path \<Rightarrow> nat \<Rightarrow> path" where
  \<comment> \<open>\<open>original_dest.parent / f"{stem}_{counter}{suffix}"\<close>\<close>
  "candidate original_dest counter =
     (let stem = name_stem (name_of original_dest);
          suffix = name_suffix (name_of original_dest)
      in joinpath (parent original_dest) (stem @ ''_'' @ str_nat counter @ suffix))"

text \<open>The loop \<open>while destination.exists()\<close> ends: the text of a candidate holds the
  digits of its counter, and the existing paths have a longest one.\<close>

lemma str_nat_bound: "n < 10 ^ length (str_nat n)"
proof (induction n rule: str_nat.induct)
  case (1 n)
  show ?case
  proof (cases "n < 10")
    case True
    then show ?thesis by (subst str_nat.simps) simp
  next
    case False
    then have "n div 10 < 10 ^ length (str_nat (n div 10))" using 1 by simp
    then have "n < 10 * 10 ^ length (str_nat (n div 10))" by linarith
    then show ?thesis using False by (subst str_nat.simps) simp
  qed
qed

lemma longest_ge: "p \<in> set ps \<Longrightarrow> length p \<le> longest ps"
  by (induction ps) (auto simp: longest_def)

lemma digit_char_no_slash: "d < 10 \<Longrightarrow> digit_char d \<noteq> CHR ''/''"
proof
  assume d: "d < 10" and eq: "digit_char d = CHR ''/''"
  have "of_char (digit_char d) = (48 + d) mod 256"
    by (simp add: digit_char_def)
  moreover have "of_char (digit_char d) = (47::nat)"
    using eq by simp
  ultimately show False using d by simp
qed

lemma str_nat_no_slash: "CHR ''/'' \<notin> set (str_nat n)"
proof (induction n rule: str_nat.induct)
  case (1 n)
  show ?case
  proof (cases "n < 10")
    case True
    then show ?thesis using digit_char_no_slash [of n] by (subst str_nat.simps) auto
  next
    case False
    moreover have "digit_char (n mod 10) \<noteq> CHR ''/''"
      by (rule digit_char_no_slash) simp
    ultimately show ?thesis using 1 by (subst str_nat.simps) auto
  qed
qed

lemma split_on_nonempty: "split_on c s \<noteq> []"
  by (induction s) (auto split: list.splits)

lemma split_on_head:
  "c \<notin> set d \<Longrightarrow> \<exists>w ws. split_on c (d @ v) = w # ws \<and> length d \<le> length w"
proof (induction d)
  case Nil
  then show ?case using split_on_nonempty [of c v] by (cases "split_on c v") auto
next
  case (Cons x d)
  then obtain w ws where "split_on c (d @ v) = w # ws" "length d \<le> length w" by auto
  then show ?case using Cons.prems by auto
qed

lemma split_on_holds:
  "c \<notin> set d \<Longrightarrow> \<exists>w \<in> set (split_on c (u @ d @ v)). length d \<le> length w"
proof (induction u)
  case Nil
  then show ?case using split_on_head [of c d v] by auto
next
  case (Cons x u)
  then obtain w where w: "w \<in> set (split_on c (u @ d @ v))" "length d \<le> length w" by auto
  show ?case
  proof (cases "x = c")
    case True
    then show ?thesis using w by auto
  next
    case False
    obtain w0 ws where sp: "split_on c (u @ d @ v) = w0 # ws"
      using split_on_nonempty [of c "u @ d @ v"] by (cases "split_on c (u @ d @ v)") auto
    show ?thesis
    proof (cases "w = w0")
      case True
      then show ?thesis using False sp w by auto
    next
      case False2: False
      then have "w \<in> set ws" using sp w by auto
      then show ?thesis using False sp w by auto
    qed
  qed
qed

lemma join_with_length: "w \<in> set ps \<Longrightarrow> length w \<le> length (join_with sep ps)"
  by (induction sep ps rule: join_with.induct) auto

lemma candidate_length: "length (str_nat counter) \<le> length (path_str (candidate original_dest counter))"
proof -
  let ?stem = "name_stem (name_of original_dest)"
  let ?suffix = "name_suffix (name_of original_dest)"
  let ?text = "?stem @ ''_'' @ str_nat counter @ ?suffix"
  have "CHR ''/'' \<notin> set (''_'' @ str_nat counter)"
    using str_nat_no_slash [of counter] by simp
  then obtain w where w: "w \<in> set (split_on CHR ''/'' (?stem @ (''_'' @ str_nat counter) @ ?suffix))"
      "length (''_'' @ str_nat counter) \<le> length w"
    using split_on_holds [of "CHR ''/''" "''_'' @ str_nat counter" ?stem ?suffix] by blast
  have "0 < length (str_nat counter)"
    by (subst str_nat.simps) simp
  then have "w \<noteq> []" "w \<noteq> ''.''" using w(2) by auto
  then have part: "w \<in> set (path_parts ?text)"
    using w(1) by (simp add: path_parts_def)
  then have "w \<in> set (snd (joinpath (parent original_dest) ?text))"
    by (simp add: joinpath_def Path_def)
  then have "length w \<le> length (path_str (joinpath (parent original_dest) ?text))"
    using join_with_length [of w "snd (joinpath (parent original_dest) ?text)" "''/''"]
    by (auto simp: path_str_def)
  then show ?thesis using w(2) by (simp add: candidate_def)
qed

lemma probe_bound:
  assumes "path_str (candidate original_dest counter) \<in> set ex"
  shows "counter < 10 ^ longest ex"
proof -
  have "length (str_nat counter) \<le> longest ex"
    using longest_ge [OF assms] candidate_length [of counter original_dest] by simp
  then have "(10::nat) ^ length (str_nat counter) \<le> 10 ^ longest ex"
    by (simp add: power_increasing)
  then show ?thesis
    using str_nat_bound [of counter] by linarith
qed

function probe :: "string list \<Rightarrow> path \<Rightarrow> nat \<Rightarrow> path" where
  \<comment> \<open>the \<open>while destination.exists()\<close> loop, from its first renamed candidate on\<close>
  "probe ex original_dest counter =
     (let destination = candidate original_dest counter
      in if path_str destination \<in> set ex
         then probe ex original_dest (counter + 1)
         else destination)"
  by pat_completeness auto
termination
proof (relation "measure (\<lambda>(ex, original_dest, counter). 10 ^ longest ex - counter)")
  show "wf (measure (\<lambda>(ex, original_dest, counter). 10 ^ longest ex - counter))"
    by simp
next
  fix ex :: "string list" and original_dest destination :: path and counter :: nat
  assume "destination = candidate original_dest counter" "path_str destination \<in> set ex"
  then have "counter < 10 ^ longest ex" using probe_bound by simp
  then show "((ex, original_dest, counter + 1), (ex, original_dest, counter))
        \<in> measure (\<lambda>(ex, original_dest, counter). 10 ^ longest ex - counter)"
    by simp
qed

declare probe.simps [simp del]

definition free_destination :: "string list \<Rightarrow> string \<Rightarrow> string \<Rightarrow> path" where
  \<comment> \<open>\<open>Path(destination_folder) / name\<close>, renamed with a counter while it exists\<close>
  "free_destination ex destination_folder name =
     (let destination = joinpath (Path destination_folder) name;
          original_dest = destination
      in if path_str destination \<in> set ex then probe ex original_dest 1 else destination)"

definition move_file ::
  "string \<Rightarrow> string \<Rightarrow> string list \<times> world \<Rightarrow> (error + string list) \<times> world" where
  \<comment> \<open>the \<open>try\<close> statement of the move methods: an exception of the move is caught, the
      file is not added to the moved files and the error is printed; an exception of that
      \<open>print\<close> leaves the method\<close>
  "move_file destination_folder name mw =
     (let (moved_files, w) = mw;
          destination = free_destination (existing w) destination_folder name;
          (done, w) = shutil_move name (path_str destination) w
      in if done then (Inr (moved_files @ [name]), w)
         else (let (printed, w) = print_error w
               in if printed then (Inr moved_files, w) else (Inl PrintError, w)))"

definition should_move :: "analyzer \<Rightarrow> string \<Rightarrow> string \<Rightarrow> string \<Rightarrow> bool \<times> analyzer" where
  "should_move a criteria_type criteria_value name =
     (if criteria_type = ''region'' then
        (let (regions, a) = detect_regions a name in (criteria_value \<in> set regions, a))
      else if criteria_type = ''special'' then
        (let (specials, a) = detect_special_versions a name in (criteria_value \<in> set specials, a))
      else if criteria_type = ''unknown_region'' then
        (let (regions, a) = detect_regions a name in (''Unknown'' \<in> set regions, a))
      else (False, a))"

fun criteria_loop ::
  "string \<Rightarrow> string \<Rightarrow> string \<Rightarrow> string list \<Rightarrow> string list \<times> analyzer \<times> world \<Rightarrow>
   (error + string list) \<times> analyzer \<times> world" where
  \<comment> \<open>the loop of \<open>move_files_by_criteria\<close> over the ROM files that remain\<close>
  "criteria_loop criteria_type criteria_value destination_folder [] (moved_files, a, w) =
     (Inr moved_files, a, w)"
| "criteria_loop criteria_type criteria_value destination_folder (rom_file # rest) (moved_files, a, w) =
     (let (move, a) = should_move a criteria_type criteria_value rom_file
      in if move then
           (case move_file destination_folder rom_file (moved_files, w) of
              (Inl e, w) \<Rightarrow> (Inl e, a, w)
            | (Inr moved_files, w) \<Rightarrow>
                criteria_loop criteria_type criteria_value destination_folder rest (moved_files, a, w))
         else criteria_loop criteria_type criteria_value destination_folder rest (moved_files, a, w))"

definition move_files_by_criteria ::
  "analyzer \<Rightarrow> string list \<Rightarrow> string \<Rightarrow> string \<Rightarrow> string \<Rightarrow> world \<Rightarrow>
   (error + string list) \<times> analyzer \<times> world" where
  \<comment> \<open>a ROM file is given by its name; the result is the list \<open>moved_files\<close> or the
      exception that left the method, with the analyzer and the world as the call leaves
      them\<close>
  "move_files_by_criteria a rom_files criteria_type criteria_value destination_folder w =
     criteria_loop criteria_type criteria_value destination_folder rom_files ([], a, w)"

definition keep_regions :: "string set" where
  "keep_regions = {''USA'', ''Europe'', ''Japan'', ''World''}"

fun keep_main_loop ::
  "string \<Rightarrow> string list \<Rightarrow> string list \<times> analyzer \<times> world \<Rightarrow>
   (error + string list) \<times> analyzer \<times> world" where
  \<comment> \<open>the loop of \<open>move_files_keep_main_regions\<close> over the ROM files that remain\<close>
  "keep_main_loop destination_folder [] (moved_files, a, w) = (Inr moved_files, a, w)"
| "keep_main_loop destination_folder (rom_file # rest) (moved_files, a, w) =
     (let (regions, a) = detect_regions a rom_file;
          move = (\<not> list_ex (\<lambda>region. region \<in> keep_regions) regions)
      in if move then
           (case move_file destination_folder rom_file (moved_files, w) of
              (Inl e, w) \<Rightarrow> (Inl e, a, w)
            | (Inr moved_files, w) \<Rightarrow> keep_main_loop destination_folder rest (moved_files, a, w))
         else keep_main_loop destination_folder rest (moved_files, a, w))"

definition move_files_keep_main_regions ::
  "analyzer \<Rightarrow> string list \<Rightarrow> string \<Rightarrow> world \<Rightarrow> (error + string list) \<times> analyzer \<times> world" where
  "move_files_keep_main_regions a rom_files destination_folder w =
     keep_main_loop destination_folder rom_files ([], a, w)"

section \<open>Notions used to state the properties\<close>

definition has_region_marker :: "string \<Rightarrow> string \<Rightarrow> bool" where
  \<comment> \<open>one of the patterns of the region is found in the file name\<close>
  "has_region_marker region filename =
     (case map_of region_patterns region of
        None \<Rightarrow> False
      | Some patterns \<Rightarrow> any_found patterns filename)"

fun first_match :: "rx list \<Rightarrow> string \<Rightarrow> (nat \<rightharpoonup> string) option" where
  \<comment> \<open>the groups of the first pattern of the list that is found in the file name\<close>
  "first_match [] filename = None"
| "first_match (r # rs) filename =
     (case re_search True r filename of Some g \<Rightarrow> Some g | None \<Rightarrow> first_match rs filename)"

definition revision_number :: "string \<Rightarrow> nat" where
  \<comment> \<open>the number in the first revision marker of the file name\<close>
  "revision_number filename =
     (case first_match revision_patterns filename of None \<Rightarrow> 0 | Some g \<Rightarrow> int_group g 1)"

fun moved_under :: "bool list \<Rightarrow> string list \<Rightarrow> string list" where
  \<comment> \<open>of the files whose move is attempted, in order, those whose move does not fail
      when the flags say which attempts fail\<close>
  "moved_under [] names = names"
| "moved_under (failed # rest) [] = []"
| "moved_under (failed # rest) (name # names) =
     (if failed then moved_under rest names else name # moved_under rest names)"

fun needs :: "char list \<Rightarrow> rx \<Rightarrow> bool" where
  \<comment> \<open>every match of the pattern contains one of the literal characters \<open>cs\<close>\<close>
  "needs cs (Str w) = list_ex (\<lambda>c. c \<in> set cs) w"
| "needs cs (Cat a b) = (needs cs a \<or> needs cs b)"
| "needs cs (Alt a b) = (needs cs a \<and> needs cs b)"
| "needs cs (Grp i a) = needs cs a"
| "needs cs r = False"

definition caseless :: "char list \<Rightarrow> bool" where
  \<comment> \<open>characters that only match themselves, with or without \<open>re.IGNORECASE\<close>\<close>
  "caseless cs = (\<forall>c \<in> set cs. \<forall>ic x. ceq ic c x \<longrightarrow> x = c)"

function squeeze :: "string \<Rightarrow> string" where
  \<comment> \<open>every run of white space replaced by one space\<close>
  "squeeze [] = []"
| "squeeze (x # xs) =
     (if is_space x then CHR '' '' # squeeze (dropWhile is_space xs) else x # squeeze xs)"
  by pat_completeness auto
termination
  by (relation "measure length") (auto simp: length_dropWhile_le less_Suc_eq_le)

fun tidy :: "string \<Rightarrow> bool" where
  \<comment> \<open>the only white space is single spaces\<close>
  "tidy [] = True"
| "tidy [x] = (is_space x \<longrightarrow> x = CHR '' '')"
| "tidy (x # y # zs) = ((is_space x \<longrightarrow> x = CHR '' '' \<and> \<not> is_space y) \<and> tidy (y # zs))"

text \<open>The three stages of \<open>get_base_filename\<close>: the extensions are removed, the tags are
  stripped, what remains is tidied up.\<close>

definition base_stem :: "string \<Rightarrow> string" where
  "base_stem filename =
     (let name = stem filename
      in if lower (suffix name) \<in> set [''.7z'', ''.zip'', ''.rar''] then stem name else name)"

definition strip_tags :: "string \<Rightarrow> string" where
  "strip_tags name =
     strip_patterns (map snd version_patterns)
       (strip_patterns (concat (map snd special_patterns))
          (strip_patterns (filter paren_form (concat (map snd region_patterns))) name))"

definition tidy_up :: "string \<Rightarrow> string" where
  "tidy_up name =
     strip (re_sub False (Plus Space) '' ''
       (re_sub False (cat [Star Space, Str ''['', Star Space, Str '']'']) []
          (re_sub False (cat [Star Space, Str ''('', Star Space, Str '')'']) [] name)))"

text \<open>What \<open>get_base_filename\<close> removes from a name: the patterns it substitutes by
  nothing, in the order of its loops, and the two patterns of empty brackets.\<close>

definition stripped_patterns :: "rx list" where
  "stripped_patterns =
     filter paren_form (concat (map snd region_patterns)) @
     concat (map snd special_patterns) @ map snd version_patterns"

definition empty_parens :: rx where
  "empty_parens = cat [Star Space, Str ''('', Star Space, Str '')'']"

definition empty_brackets :: rx where
  "empty_brackets = cat [Star Space, Str ''['', Star Space, Str '']'']"

definition settled :: "string \<Rightarrow> bool" where
  \<comment> \<open>the name has no extension, and none of the removed patterns is found in it\<close>
  "settled y =
     (stem y = y \<and> \<not> any_found stripped_patterns y \<and>
      \<not> re_found False empty_parens y \<and> \<not> re_found False empty_brackets y)"

text \<open>The analyzer after \<open>load_config\<close> has read a priority order that starts with Asia.\<close>

definition asia_first :: analyzer where
  "asia_first = load_region_priority ''Asia, USA, World, Europe, Japan'' new_analyzer"

section \<open>Evaluating the character classes\<close>

text \<open>
  The character classes on the eight bits of a character, lowest bit first. These
  equations are the ones used to evaluate the classes on concrete file names.
\<close>

lemma is_digit_bits [code]:
  "is_digit (Char b0 b1 b2 b3 b4 b5 b6 b7) = (\<not> b7 \<and> \<not> b6 \<and> b5 \<and> b4 \<and> (\<not> b3 \<or> (\<not> b2 \<and> \<not> b1)))"
  by (cases b0; cases b1; cases b2; cases b3; cases b4; cases b5; cases b6; cases b7;
      simp add: is_digit_def code_def)

lemma is_upper_bits [code]:
  "is_upper (Char b0 b1 b2 b3 b4 b5 b6 b7) =
     (b6 \<and> \<not> b5 \<and>
      (if b7 then \<not> (b4 \<and> b2 \<and> b1 \<and> b0) else (b0 \<or> b1 \<or> b2 \<or> b3 \<or> b4) \<and> \<not> (b4 \<and> b3 \<and> (b2 \<or> (b1 \<and> b0)))))"
  by (cases b0; cases b1; cases b2; cases b3; cases b4; cases b5; cases b6; cases b7;
      simp add: is_upper_def code_def)

lemma lower_char_bits [code]:
  "lower_char (Char b0 b1 b2 b3 b4 b5 b6 b7) =
     (if is_upper (Char b0 b1 b2 b3 b4 b5 b6 b7) then Char b0 b1 b2 b3 b4 True b6 b7
      else Char b0 b1 b2 b3 b4 b5 b6 b7)"
  by (cases b0; cases b1; cases b2; cases b3; cases b4; cases b5; cases b6; cases b7;
      simp add: lower_char_def is_upper_def code_def char_of_def bit_Suc_0_iff)

lemma is_word_bits [code]:
  "is_word (Char b0 b1 b2 b3 b4 b5 b6 b7) =
     (if b7 then
        (if b6 then \<not> (b4 \<and> \<not> b3 \<and> b2 \<and> b1 \<and> b0)
         else b5 \<and> ((\<not> b4 \<and> b3 \<and> \<not> b2 \<and> b1 \<and> \<not> b0) \<or>
                    (b4 \<and> \<not> b3 \<and> \<not> b2 \<and> b1) \<or>
                    (b4 \<and> \<not> b3 \<and> b2 \<and> \<not> b1 \<and> b0) \<or>
                    (b4 \<and> b3 \<and> \<not> b2 \<and> (b0 \<noteq> b1)) \<or>
                    (b4 \<and> b3 \<and> b2 \<and> \<not> (b1 \<and> b0))))
      else if b6 then
        ((b0 \<or> b1 \<or> b2 \<or> b3 \<or> b4) \<and> \<not> (b4 \<and> b3 \<and> (b2 \<or> (b1 \<and> b0)))) \<or>
        (\<not> b5 \<and> b4 \<and> b3 \<and> b2 \<and> b1 \<and> b0)
      else b5 \<and> b4 \<and> (\<not> b3 \<or> (\<not> b2 \<and> \<not> b1)))"
  by (cases b0; cases b1; cases b2; cases b3; cases b4; cases b5; cases b6; cases b7;
      simp add: is_word_def code_def)

lemma is_space_bits [code]:
  "is_space (Char b0 b1 b2 b3 b4 b5 b6 b7) =
     (if b7 then \<not> b6 \<and> \<not> b4 \<and> \<not> b3 \<and> \<not> b1 \<and> (if b5 then \<not> b2 \<and> \<not> b0 else b2 \<and> b0)
      else \<not> b6 \<and>
        (if b5 then \<not> b4 \<and> \<not> b3 \<and> \<not> b2 \<and> \<not> b1 \<and> \<not> b0
         else if b4 then b3 \<and> b2
         else b3 \<and> ((\<not> b2 \<and> (b1 \<or> b0)) \<or> (b2 \<and> \<not> b1))))"
  by (cases b0; cases b1; cases b2; cases b3; cases b4; cases b5; cases b6; cases b7;
      simp add: is_space_def code_def)

section \<open>Properties of region detection\<close>

lemma detect_regions_fst:
  "fst (detect_regions a filename) = default_rule (translation_rule filename (found_regions filename))"
  by (simp add: detect_regions_def Let_def)

lemma default_rule_nonempty: "default_rule regions \<noteq> []"
  by (simp add: default_rule_def)

text \<open>
  C6. For every file name the region list of \<open>detect_regions\<close> is non-empty, and when
  neither scan finds a region the list is exactly \<open>['USA']\<close>.
\<close>

theorem detect_regions_nonempty:
  "fst (detect_regions a filename) \<noteq> [] \<and>
   (found_regions filename = [] \<longrightarrow> fst (detect_regions a filename) = [''USA''])"
  by (simp add: detect_regions_fst default_rule_def translation_rule_def)

lemma found_regions_Game: "found_regions ''Game.zip'' = []"
  by code_simp

theorem detect_regions_nonempty_witness:
  "found_regions ''Game.zip'' = [] \<and> fst (detect_regions new_analyzer ''Game.zip'') = [''USA'']"
  using detect_regions_nonempty [of new_analyzer "''Game.zip''"] found_regions_Game by simp

lemma regions_matching_subset: "set (regions_matching s) \<subseteq> fst ` set region_patterns"
  by (auto simp: regions_matching_def)

lemma append_new_set: "set (append_new regions found) = set regions \<union> set found"
  unfolding append_new_def
  by (induction found arbitrary: regions) auto

lemma scan_part_subset: "set (scan_part part regions) \<subseteq> set regions \<union> fst ` set region_patterns"
  using regions_matching_subset by (auto simp: scan_part_def append_new_set)

lemma fold_scan_part_subset:
  "set (fold scan_part parts regions) \<subseteq> set regions \<union> fst ` set region_patterns"
proof (induction parts arbitrary: regions)
  case Nil
  then show ?case by simp
next
  case (Cons part parts)
  have "set (fold scan_part parts (scan_part part regions))
          \<subseteq> set (scan_part part regions) \<union> fst ` set region_patterns"
    by (rule Cons.IH)
  then show ?case using scan_part_subset [of part regions] by auto
qed

lemma fold_groups_subset:
  "set (fold (\<lambda>match regions. fold scan_part (f match) regions) matches regions)
     \<subseteq> set regions \<union> fst ` set region_patterns"
proof (induction matches arbitrary: regions)
  case Nil
  then show ?case by simp
next
  case (Cons m matches)
  have "set (fold (\<lambda>match regions. fold scan_part (f match) regions) matches (fold scan_part (f m) regions))
          \<subseteq> set (fold scan_part (f m) regions) \<union> fst ` set region_patterns"
    by (rule Cons.IH)
  then show ?case using fold_scan_part_subset [of "f m" regions] by auto
qed

lemma scan_groups_subset: "set (scan_groups filename) \<subseteq> fst ` set region_patterns"
  unfolding scan_groups_def Let_def
  using fold_groups_subset [of "\<lambda>match. map strip (split_on CHR '','' match)" _ "[]"] by simp

lemma found_regions_subset: "set (found_regions filename) \<subseteq> fst ` set region_patterns"
  using scan_groups_subset regions_matching_subset by (simp add: found_regions_def Let_def)

lemma region_names:
  "fst ` set region_patterns = {''USA'', ''Europe'', ''Japan'', ''World'', ''Asia'', ''Australia'',
     ''Brazil'', ''Canada'', ''China'', ''France'', ''Germany'', ''Italy'', ''Korea'',
     ''Netherlands'', ''Spain'', ''Sweden'', ''Taiwan'', ''UK''}"
  by (simp add: region_patterns_def)

lemma unknown_not_found: "''Unknown'' \<notin> set (found_regions filename)"
  using found_regions_subset [of filename] by (auto simp: region_names)

lemma translation_rule_subset:
  "set (translation_rule filename regions) \<subseteq> set regions \<union> {''USA''}"
  by (auto simp: translation_rule_def Let_def)

lemma default_rule_subset: "set (default_rule regions) \<subseteq> set regions \<union> {''USA''}"
  by (auto simp: default_rule_def)

lemma unknown_not_detected: "''Unknown'' \<notin> set (fst (detect_regions a filename))"
proof -
  have "set (fst (detect_regions a filename)) \<subseteq> set (found_regions filename) \<union> {''USA''}"
    unfolding detect_regions_fst
    using default_rule_subset [of "translation_rule filename (found_regions filename)"]
      translation_rule_subset [of filename "found_regions filename"] by blast
  then show ?thesis using unknown_not_found [of filename] by auto
qed

lemma should_move_unknown:
  "fst (should_move a ''unknown_region'' criteria_value name) = False"
  using unknown_not_detected [of a name]
  by (simp add: should_move_def case_prod_beta)

lemma criteria_loop_unknown:
  "\<exists>a'. criteria_loop ''unknown_region'' criteria_value destination_folder rom_files
          (moved_files, a, w) = (Inr moved_files, a', w)"
proof (induction rom_files arbitrary: a)
  case Nil
  then show ?case by simp
next
  case (Cons rom_file rom_files)
  show ?case
    using Cons.IH [of "snd (should_move a ''unknown_region'' criteria_value rom_file)"]
      should_move_unknown [of a criteria_value rom_file]
    by (simp add: case_prod_beta)
qed

text \<open>
  C9. The region list of \<open>detect_regions\<close> never contains \<open>'Unknown'\<close>; so
  \<open>move_files_by_criteria\<close> with the criteria type \<open>'unknown_region'\<close> returns the
  empty list of moved files for every list of ROM files, and leaves the file system
  as it was.
\<close>

theorem unknown_region_moves_nothing:
  "''Unknown'' \<notin> set (fst (detect_regions a filename)) \<and>
   fst (move_files_by_criteria a rom_files ''unknown_region'' criteria_value destination_folder w) = Inr [] \<and>
   snd (snd (move_files_by_criteria a rom_files ''unknown_region'' criteria_value destination_folder w)) = w"
proof -
  obtain a' where
    "criteria_loop ''unknown_region'' criteria_value destination_folder rom_files ([], a, w) =
       (Inr [], a', w)"
    using criteria_loop_unknown by blast
  then show ?thesis
    using unknown_not_detected [of a filename] by (simp add: move_files_by_criteria_def)
qed

theorem unknown_region_moves_nothing_witness:
  "''Unknown'' \<notin> set (fst (detect_regions new_analyzer ''Game (Foo).zip'')) \<and>
   fst (move_files_by_criteria new_analyzer [''Game (Foo).zip'', ''Game.zip''] ''unknown_region'' []
          ''ROM_REVIEW'' \<lparr>existing = [], faults = [], print_faults = [], attempts = []\<rparr>) = Inr []"
  using unknown_region_moves_nothing [of new_analyzer "''Game (Foo).zip''"
      "[''Game (Foo).zip'', ''Game.zip'']" "[]" "''ROM_REVIEW''"
      "\<lparr>existing = [], faults = [], print_faults = [], attempts = []\<rparr>"]
  by simp

lemma translation_rule_japan:
  assumes "has_translation filename" and "''Japan'' \<in> set regions"
  shows "translation_rule filename regions =
           (let others = filter (\<lambda>r. r \<noteq> ''Japan'') regions
            in if ''USA'' \<in> set others then others else others @ [''USA''])"
  using assms by (simp add: translation_rule_def Let_def)

text \<open>
  C3, as amended. For every file name with a translation marker whose detected regions
  include Japan, the region list of \<open>detect_regions\<close> does not contain Japan and contains
  USA: it is the other detected regions, in order, with USA appended unless it is one of
  them. It is exactly \<open>['USA']\<close> when Japan is the only detected region.
\<close>

theorem japan_translation_becomes_usa:
  assumes "has_translation filename" and "''Japan'' \<in> set (found_regions filename)"
  shows "''Japan'' \<notin> set (fst (detect_regions a filename)) \<and>
         ''USA'' \<in> set (fst (detect_regions a filename)) \<and>
         fst (detect_regions a filename) =
           (let others = filter (\<lambda>r. r \<noteq> ''Japan'') (found_regions filename)
            in if ''USA'' \<in> set others then others else others @ [''USA'']) \<and>
         (found_regions filename = [''Japan''] \<longrightarrow> fst (detect_regions a filename) = [''USA''])"
proof -
  let ?others = "filter (\<lambda>r. r \<noteq> ''Japan'') (found_regions filename)"
  let ?res = "if ''USA'' \<in> set ?others then ?others else ?others @ [''USA'']"
  have tr: "translation_rule filename (found_regions filename) = ?res"
    using translation_rule_japan [OF assms] by (simp add: Let_def)
  have usa: "''USA'' \<in> set ?res" by simp
  then have ne: "?res \<noteq> []" by auto
  have nu: "?res \<noteq> [''Unknown'']" using usa by auto
  have res: "fst (detect_regions a filename) = ?res"
    using ne nu by (simp only: detect_regions_fst tr default_rule_def) simp
  have nj: "''Japan'' \<notin> set ?res" by simp
  show ?thesis
    using res usa nj by (simp add: Let_def)
qed

lemma japan_en_found: "found_regions ''Game (Japan) [T+Eng].zip'' = [''Japan'']"
  by code_simp

lemma japan_en_translated: "has_translation ''Game (Japan) [T+Eng].zip''"
  by code_simp

theorem japan_translation_becomes_usa_witness:
  "has_translation ''Game (Japan) [T+Eng].zip'' \<and>
   ''Japan'' \<in> set (found_regions ''Game (Japan) [T+Eng].zip'') \<and>
   fst (detect_regions new_analyzer ''Game (Japan) [T+Eng].zip'') = [''USA'']"
  using japan_translation_becomes_usa [of "''Game (Japan) [T+Eng].zip''" new_analyzer]
    japan_en_found japan_en_translated by simp

lemma japan_europe_found: "found_regions ''Game (Japan, Europe) [T+Eng].zip'' = [''Japan'', ''Europe'']"
  by code_simp

lemma japan_europe_translated: "has_translation ''Game (Japan, Europe) [T+Eng].zip''"
  by code_simp

lemma japan_europe_marker: "has_region_marker ''Japan'' ''Game (Japan, Europe) [T+Eng].zip''"
  by code_simp

text \<open>
  The file name \<open>Game (Japan, Europe) [T+Eng].zip\<close> has a Japan region marker and a
  translation marker, and its region list is \<open>['Europe', 'USA']\<close>, not \<open>['USA']\<close>.
\<close>

theorem japan_translation_counterexample:
  "has_region_marker ''Japan'' ''Game (Japan, Europe) [T+Eng].zip'' \<and>
   has_translation ''Game (Japan, Europe) [T+Eng].zip'' \<and>
   fst (detect_regions new_analyzer ''Game (Japan, Europe) [T+Eng].zip'') = [''Europe'', ''USA''] \<and>
   fst (detect_regions new_analyzer ''Game (Japan, Europe) [T+Eng].zip'') \<noteq> [''USA'']"
  by (simp add: detect_regions_fst japan_europe_found japan_europe_translated japan_europe_marker
        translation_rule_def default_rule_def)

section \<open>Properties of the casino and adult classifiers\<close>

lemma any_found_iff: "any_found ps s \<longleftrightarrow> (\<exists>r \<in> set ps. re_found True r s)"
  by (simp add: any_found_def list_ex_iff)

text \<open>
  C7. \<open>is_casino_game\<close> and \<open>is_adult_game\<close> are true exactly when no exclusion
  pattern of the category is found in the lower-cased stem and some positive pattern
  is; so a stem in which an exclusion pattern is found is classified false, whatever
  positive patterns are found in it.
\<close>

theorem exclusion_precedence:
  "(is_casino_game filename \<longleftrightarrow>
      \<not> (\<exists>r \<in> set casino_exclusion_patterns. re_found True r (lower (stem filename))) \<and>
      (\<exists>r \<in> set casino_game_patterns. re_found True r (lower (stem filename)))) \<and>
   (is_adult_game filename \<longleftrightarrow>
      \<not> (\<exists>r \<in> set adult_exclusion_patterns. re_found True r (lower (stem filename))) \<and>
      (\<exists>r \<in> set adult_game_patterns. re_found True r (lower (stem filename))))"
  by (simp add: is_casino_game_def is_adult_game_def any_found_iff Let_def)

lemma poker_stem: "lower (stem ''Pokemon Poker.gb'') = ''pokemon poker''"
  by code_simp

lemma poker_excluded: "re_found True (wb ''pokemon'') ''pokemon poker''"
  by code_simp

lemma poker_positive: "re_found True (wb ''poker'') ''pokemon poker''"
  by code_simp

theorem exclusion_precedence_witness:
  "wb ''pokemon'' \<in> set casino_exclusion_patterns \<and> wb ''poker'' \<in> set casino_game_patterns \<and>
   re_found True (wb ''pokemon'') (lower (stem ''Pokemon Poker.gb'')) \<and>
   re_found True (wb ''poker'') (lower (stem ''Pokemon Poker.gb'')) \<and>
   \<not> is_casino_game ''Pokemon Poker.gb''"
proof -
  have ex: "wb ''pokemon'' \<in> set casino_exclusion_patterns"
    by (simp add: casino_exclusion_patterns_def)
  have po: "wb ''poker'' \<in> set casino_game_patterns"
    by (simp add: casino_game_patterns_def)
  have "\<exists>r \<in> set casino_exclusion_patterns. re_found True r (lower (stem ''Pokemon Poker.gb''))"
    using ex poker_excluded poker_stem by auto
  then have "\<not> is_casino_game ''Pokemon Poker.gb''"
    using exclusion_precedence [of "''Pokemon Poker.gb''"] by blast
  then show ?thesis
    using ex po poker_excluded poker_positive poker_stem by simp
qed

section \<open>Properties of version detection\<close>

lemma re_found_search: "re_found ic r s \<longleftrightarrow> re_search ic r s \<noteq> None"
  by (simp add: re_found_def re_search_def)

lemma detect_version_in_append:
  "detect_version_in (map (Pair k) ps @ rest) filename =
     (case first_match ps filename of
        Some g \<Rightarrow> version_of k g
      | None \<Rightarrow> detect_version_in rest filename)"
  by (induction ps) (auto split: option.splits)

lemma first_match_None: "first_match ps filename = None \<longleftrightarrow> \<not> any_found ps filename"
  by (induction ps) (auto simp: any_found_def re_found_search split: option.splits)

lemma detect_version_order:
  "detect_version filename =
     (case first_match standard_patterns filename of
        Some g \<Rightarrow> version_of Standard g
      | None \<Rightarrow>
          (case first_match revision_patterns filename of
             Some g \<Rightarrow> version_of Revision g
           | None \<Rightarrow>
               (case first_match alpha_beta_patterns filename of
                  Some g \<Rightarrow> version_of AlphaBeta g
                | None \<Rightarrow> (2, 1, 0, 0))))"
proof -
  have "detect_version_in (map (Pair AlphaBeta) alpha_beta_patterns) filename =
          (case first_match alpha_beta_patterns filename of
             Some g \<Rightarrow> version_of AlphaBeta g | None \<Rightarrow> (2, 1, 0, 0))"
    using detect_version_in_append [of AlphaBeta alpha_beta_patterns "[]" filename]
    by (simp split: option.splits)
  then show ?thesis
    by (simp add: detect_version_def version_patterns_def detect_version_in_append
          cong: option.case_cong)
qed

text \<open>
  C1, as amended. \<open>detect_version\<close> tries the pattern families in the order of the
  source's list: standard numeric first, then revision, then alpha/beta with a number,
  and returns on the first match; without a match it returns (2, 1, 0, 0). So for every
  file name with a standard numeric marker, with or without an alpha/beta marker, the
  tuple is the one built from the numeric marker, of release stage 2.
\<close>

theorem detect_version_priority:
  "detect_version filename =
     (case first_match standard_patterns filename of
        Some g \<Rightarrow> version_of Standard g
      | None \<Rightarrow>
          (case first_match revision_patterns filename of
             Some g \<Rightarrow> version_of Revision g
           | None \<Rightarrow>
               (case first_match alpha_beta_patterns filename of
                  Some g \<Rightarrow> version_of AlphaBeta g
                | None \<Rightarrow> (2, 1, 0, 0)))) \<and>
   (any_found standard_patterns filename \<longrightarrow> fst (detect_version filename) = 2)"
proof -
  have "fst (detect_version filename) = 2" if found: "any_found standard_patterns filename"
  proof -
    obtain g where "first_match standard_patterns filename = Some g"
      using found first_match_None [of standard_patterns filename]
      by (cases "first_match standard_patterns filename") auto
    then show ?thesis by (simp add: detect_version_order)
  qed
  then show ?thesis using detect_version_order by blast
qed

lemma beta_v_standard: "any_found standard_patterns ''Game (beta 2) (v1.0).zip''"
  by code_simp

lemma beta_v_alpha: "any_found alpha_beta_patterns ''Game (beta 2) (v1.0).zip''"
  by code_simp

lemma beta_v_version: "detect_version ''Game (beta 2) (v1.0).zip'' = (2, 1, 0, 0)"
  by code_simp

theorem detect_version_priority_witness:
  "any_found standard_patterns ''Game (beta 2) (v1.0).zip'' \<and>
   fst (detect_version ''Game (beta 2) (v1.0).zip'') = 2"
  using detect_version_priority [of "''Game (beta 2) (v1.0).zip''"] beta_v_standard by blast

text \<open>
  The file name \<open>Game (beta 2) (v1.0).zip\<close> has an alpha/beta marker and a standard
  numeric marker; its tuple is (2, 1, 0, 0), built from the numeric marker, and its
  release stage is neither 0 nor 1.
\<close>

theorem detect_version_counterexample:
  "any_found alpha_beta_patterns ''Game (beta 2) (v1.0).zip'' \<and>
   any_found standard_patterns ''Game (beta 2) (v1.0).zip'' \<and>
   detect_version ''Game (beta 2) (v1.0).zip'' = (2, 1, 0, 0) \<and>
   fst (detect_version ''Game (beta 2) (v1.0).zip'') \<noteq> 0 \<and>
   fst (detect_version ''Game (beta 2) (v1.0).zip'') \<noteq> 1"
  by (simp add: beta_v_standard beta_v_alpha beta_v_version)

lemma any_found_append: "any_found (ps @ qs) s \<longleftrightarrow> any_found ps s \<or> any_found qs s"
  by (auto simp: any_found_def list_ex_iff)

lemma version_patterns_snd:
  "map snd version_patterns = standard_patterns @ revision_patterns @ alpha_beta_patterns"
  by (simp add: version_patterns_def comp_def)

lemma unversioned_default:
  assumes "\<not> any_found (map snd version_patterns) filename"
  shows "detect_version filename = (2, 1, 0, 0)"
proof -
  have "first_match standard_patterns filename = None"
    and "first_match revision_patterns filename = None"
    and "first_match alpha_beta_patterns filename = None"
    using assms by (simp_all add: version_patterns_snd any_found_append first_match_None)
  then show ?thesis by (simp add: detect_version_order)
qed

lemma revision_version:
  assumes "\<not> any_found standard_patterns filename" and "any_found revision_patterns filename"
  shows "detect_version filename = (2, 0, 0, revision_number filename)"
proof -
  have std: "first_match standard_patterns filename = None"
    using assms(1) by (simp add: first_match_None)
  obtain g where g: "first_match revision_patterns filename = Some g"
    using assms(2) first_match_None [of revision_patterns filename]
    by (cases "first_match revision_patterns filename") auto
  show ?thesis by (simp add: detect_version_order std g revision_number_def)
qed

text \<open>
  C10. For every file name in which no standard numeric marker but a revision marker
  with the number n is found, \<open>detect_version\<close> returns (2, 0, 0, n), which is less
  than the tuple (2, 1, 0, 0) of a file name without a version marker; so
  \<open>get_best_version_rom\<close>, given a revision-tagged ROM and an unversioned ROM (neither
  a save state), in either order, returns the unversioned one.
\<close>

theorem revision_loses_to_unversioned:
  assumes "\<not> any_found standard_patterns revised" and "any_found revision_patterns revised"
    and "\<not> any_found (map snd version_patterns) plain"
    and "\<not> is_save_state revised" and "\<not> is_save_state plain"
  shows "detect_version revised = (2, 0, 0, revision_number revised) \<and>
         detect_version plain = (2, 1, 0, 0) \<and>
         detect_version revised < detect_version plain \<and>
         get_best_version_rom [revised, plain] = Some plain \<and>
         get_best_version_rom [plain, revised] = Some plain"
proof -
  have r: "detect_version revised = (2, 0, 0, revision_number revised)"
    using assms(1,2) by (rule revision_version)
  have p: "detect_version plain = (2, 1, 0, 0)"
    using assms(3) by (rule unversioned_default)
  have lt: "detect_version revised < detect_version plain"
    by (simp add: r p)
  then have key1: "(detect_version revised, get_format_preference revised)
                     < (detect_version plain, get_format_preference plain)"
    by simp
  have key2: "\<not> (detect_version plain, get_format_preference plain)
                     < (detect_version revised, get_format_preference revised)"
    using lt by (simp add: less_le_not_le)
  show ?thesis
    using r p lt key1 key2 assms(4,5) by (simp add: get_best_version_rom_def)
qed

lemma rev1_no_standard: "\<not> any_found standard_patterns ''Game (Rev 1).nes''"
  by code_simp

lemma rev1_revision: "any_found revision_patterns ''Game (Rev 1).nes''"
  by code_simp

lemma rev1_number: "revision_number ''Game (Rev 1).nes'' = 1"
  by code_simp

lemma plain_no_version: "\<not> any_found (map snd version_patterns) ''Game.nes''"
  by code_simp

lemma rev1_rom: "\<not> is_save_state ''Game (Rev 1).nes''"
  by code_simp

lemma plain_rom: "\<not> is_save_state ''Game.nes''"
  by code_simp

theorem revision_loses_to_unversioned_witness:
  "detect_version ''Game (Rev 1).nes'' = (2, 0, 0, 1) \<and>
   detect_version ''Game.nes'' = (2, 1, 0, 0) \<and>
   get_best_version_rom [''Game (Rev 1).nes'', ''Game.nes''] = Some ''Game.nes'' \<and>
   get_best_version_rom [''Game.nes'', ''Game (Rev 1).nes''] = Some ''Game.nes''"
  using revision_loses_to_unversioned [OF rev1_no_standard rev1_revision plain_no_version rev1_rom plain_rom]
  by (simp add: rev1_number)

section \<open>Properties of the move operations\<close>

lemma moved_under_Nil [simp]: "moved_under fs [] = []"
  by (cases fs) auto

lemma moved_under_Cons:
  "moved_under fs (name # names) =
     (if fs \<noteq> [] \<and> hd fs then moved_under (tl fs) names else name # moved_under (tl fs) names)"
  by (cases fs) auto

lemma moved_under_no_fault: "True \<notin> set fs \<Longrightarrow> moved_under fs names = names"
  by (induction fs names rule: moved_under.induct) auto

text \<open>What one pass through the \<open>try\<close> statement does: the move is attempted; the file
  is added when the move succeeds; when it fails the error is printed, and the method is
  left when that \<open>print\<close> fails too.\<close>

lemma move_file_attempts:
  "map fst (attempts (snd (move_file destination_folder name (moved_files, w)))) =
     map fst (attempts w) @ [name]"
  by (cases "faults w"; cases "print_faults w")
     (auto simp: move_file_def shutil_move_def print_error_def Let_def)

lemma move_file_faults:
  "faults (snd (move_file destination_folder name (moved_files, w))) = tl (faults w)"
  by (cases "faults w"; cases "print_faults w")
     (auto simp: move_file_def shutil_move_def print_error_def Let_def)

lemma move_file_print_faults:
  "set (print_faults (snd (move_file destination_folder name (moved_files, w)))) \<subseteq>
     set (print_faults w)"
  by (cases "faults w"; cases "print_faults w")
     (auto simp: move_file_def shutil_move_def print_error_def Let_def)

lemma move_file_tolerated:
  assumes "True \<notin> set (faults w) \<or> True \<notin> set (print_faults w)"
  shows "fst (move_file destination_folder name (moved_files, w)) =
           Inr (if faults w \<noteq> [] \<and> hd (faults w) then moved_files else moved_files @ [name])"
  using assms
  by (cases "faults w"; cases "print_faults w")
     (auto simp: move_file_def shutil_move_def print_error_def Let_def)

lemma move_file_raises:
  assumes "faults w = True # fs" and "print_faults w = True # ps"
  shows "fst (move_file destination_folder name (moved_files, w)) = Inl PrintError"
  using assms by (simp add: move_file_def shutil_move_def print_error_def Let_def)

text \<open>A loop that runs the \<open>try\<close> statement for the files that a predicate selects,
  whatever it does to the analyzer. When no move fails, or no \<open>print\<close> does, every
  selected file is attempted and the moved files are those whose attempt did not fail.\<close>

lemma loop_moves_selected:
  assumes nil: "\<And>moved_files a w. loop [] (moved_files, a, w) = (Inr moved_files, a, w)"
    and cons: "\<And>rom_file rest moved_files a w. \<exists>a'.
        loop (rom_file # rest) (moved_files, a, w) =
          (if sel rom_file
           then (case move_file destination_folder rom_file (moved_files, w) of
                   (Inl e, w') \<Rightarrow> (Inl e, a', w')
                 | (Inr moved_files', w') \<Rightarrow> loop rest (moved_files', a', w'))
           else loop rest (moved_files, a', w))"
  shows "True \<notin> set (faults w) \<or> True \<notin> set (print_faults w) \<Longrightarrow>
         \<exists>a' w'. loop rom_files (moved_files, a, w) =
             (Inr (moved_files @ moved_under (faults w) (filter sel rom_files)), a', w') \<and>
           map fst (attempts w') = map fst (attempts w) @ filter sel rom_files"
proof (induction rom_files arbitrary: moved_files a w)
  case Nil
  then show ?case by (simp add: nil)
next
  case (Cons rom_file rom_files)
  obtain a1 where step:
    "loop (rom_file # rom_files) (moved_files, a, w) =
       (if sel rom_file
        then (case move_file destination_folder rom_file (moved_files, w) of
                (Inl e, w') \<Rightarrow> (Inl e, a1, w')
              | (Inr moved_files', w') \<Rightarrow> loop rom_files (moved_files', a1, w'))
        else loop rom_files (moved_files, a1, w))"
    using cons by blast
  show ?case
  proof (cases "sel rom_file")
    case False
    then show ?thesis using Cons.IH [OF Cons.prems, of moved_files a1] step by simp
  next
    case True
    let ?r = "move_file destination_folder rom_file (moved_files, w)"
    let ?m1 = "if faults w \<noteq> [] \<and> hd (faults w) then moved_files else moved_files @ [rom_file]"
    have r: "?r = (Inr ?m1, snd ?r)"
      using move_file_tolerated [OF Cons.prems, of destination_folder rom_file moved_files]
      by (simp add: prod_eq_iff)
    have ok: "True \<notin> set (faults (snd ?r)) \<or> True \<notin> set (print_faults (snd ?r))"
    proof -
      have "set (faults (snd ?r)) \<subseteq> set (faults w)"
        unfolding move_file_faults by (cases "faults w") auto
      then show ?thesis
        using Cons.prems move_file_print_faults [of destination_folder rom_file moved_files w]
        by blast
    qed
    have st: "loop (rom_file # rom_files) (moved_files, a, w) = loop rom_files (?m1, a1, snd ?r)"
      using step True by (subst (asm) r) simp
    obtain a' w' where ih:
      "loop rom_files (?m1, a1, snd ?r) =
         (Inr (?m1 @ moved_under (faults (snd ?r)) (filter sel rom_files)), a', w')"
      "map fst (attempts w') = map fst (attempts (snd ?r)) @ filter sel rom_files"
      using Cons.IH [OF ok, of ?m1 a1] by blast
    have "loop (rom_file # rom_files) (moved_files, a, w) =
            (Inr (moved_files @ moved_under (faults w) (filter sel (rom_file # rom_files))), a', w')"
      using True st ih(1) by (simp add: moved_under_Cons move_file_faults)
    moreover have "map fst (attempts w') = map fst (attempts w) @ filter sel (rom_file # rom_files)"
      using True ih(2) by (simp add: move_file_attempts)
    ultimately show ?thesis by blast
  qed
qed

lemma detect_special_versions_fst:
  "fst (detect_special_versions a filename) = fst (detect_special_versions b filename)"
  by (simp add: detect_special_versions_def Let_def)

text \<open>Whether a file is selected does not depend on the unknown tokens collected so far.\<close>

lemma should_move_fst:
  "fst (should_move a criteria_type criteria_value name) = fst (should_move b criteria_type criteria_value name)"
  using detect_special_versions_fst [of a name b]
  by (simp add: should_move_def case_prod_beta detect_regions_fst)

lemma criteria_loop_Cons:
  "\<exists>a'. criteria_loop criteria_type criteria_value destination_folder (rom_file # rest)
          (moved_files, a, w) =
          (if fst (should_move a0 criteria_type criteria_value rom_file)
           then (case move_file destination_folder rom_file (moved_files, w) of
                   (Inl e, w') \<Rightarrow> (Inl e, a', w')
                 | (Inr moved_files', w') \<Rightarrow>
                     criteria_loop criteria_type criteria_value destination_folder rest
                       (moved_files', a', w'))
           else criteria_loop criteria_type criteria_value destination_folder rest
                  (moved_files, a', w))"
proof -
  have "fst (should_move a criteria_type criteria_value rom_file) =
          fst (should_move a0 criteria_type criteria_value rom_file)"
    by (rule should_move_fst)
  then show ?thesis
    by (intro exI [of _ "snd (should_move a criteria_type criteria_value rom_file)"])
       (simp add: case_prod_beta)
qed

text \<open>When no move fails, or the error of every failed move can be printed,
  \<open>move_files_by_criteria\<close> attempts every selected file and returns those whose move
  did not fail.\<close>

lemma criteria_moves_tolerated:
  assumes "True \<notin> set (faults w) \<or> True \<notin> set (print_faults w)"
  shows "fst (move_files_by_criteria a rom_files criteria_type criteria_value destination_folder w) =
     Inr (moved_under (faults w)
       (filter (\<lambda>rom_file. fst (should_move a criteria_type criteria_value rom_file)) rom_files)) \<and>
   map fst (attempts (snd (snd (move_files_by_criteria a rom_files criteria_type criteria_value
       destination_folder w)))) =
     map fst (attempts w) @
       filter (\<lambda>rom_file. fst (should_move a criteria_type criteria_value rom_file)) rom_files"
proof -
  let ?sel = "\<lambda>rom_file. fst (should_move a criteria_type criteria_value rom_file)"
  obtain a' w' where
    "criteria_loop criteria_type criteria_value destination_folder rom_files ([], a, w) =
       (Inr ([] @ moved_under (faults w) (filter ?sel rom_files)), a', w')"
    "map fst (attempts w') = map fst (attempts w) @ filter ?sel rom_files"
    using loop_moves_selected [of "criteria_loop criteria_type criteria_value destination_folder"
        ?sel destination_folder w rom_files "[]" a, OF _ criteria_loop_Cons assms]
    by auto
  then show ?thesis by (simp add: move_files_by_criteria_def)
qed

lemma criteria_loop_aborts:
  assumes "fst (should_move a criteria_type criteria_value rom_file)"
    and "faults w = True # fs" and "print_faults w = True # ps"
  shows "fst (criteria_loop criteria_type criteria_value destination_folder (rom_file # rest)
                (moved_files, a, w)) = Inl PrintError \<and>
         map fst (attempts (snd (snd (criteria_loop criteria_type criteria_value destination_folder
                (rom_file # rest) (moved_files, a, w))))) = map fst (attempts w) @ [rom_file]"
proof -
  let ?r = "move_file destination_folder rom_file (moved_files, w)"
  have "fst ?r = Inl PrintError"
    using assms(2,3) by (rule move_file_raises)
  then have "criteria_loop criteria_type criteria_value destination_folder (rom_file # rest)
                (moved_files, a, w) =
             (Inl PrintError, snd (should_move a criteria_type criteria_value rom_file), snd ?r)"
    using assms(1) by (simp add: case_prod_beta)
  then show ?thesis by (simp add: move_file_attempts)
qed

lemma regions_a: "default_rule (translation_rule ''a (Asia).zip'' (found_regions ''a (Asia).zip'')) = [''Asia'']"
  by code_simp

lemma regions_b: "default_rule (translation_rule ''b (USA).zip'' (found_regions ''b (USA).zip'')) = [''USA'']"
  by code_simp

lemma regions_c: "default_rule (translation_rule ''c (Asia).zip'' (found_regions ''c (Asia).zip'')) = [''Asia'']"
  by code_simp

text \<open>
  C8. In \<open>move_files_by_criteria\<close> the handler of a failed move prints the error, and
  that \<open>print\<close> is not protected. Of the two files \<open>a (Asia).zip\<close> and \<open>c (Asia).zip\<close>,
  both selected by the region Asia, the move of the first fails and the error cannot be
  printed: the exception leaves the method, no list of moved files is returned, and no
  move of the second file is attempted, although that move would not fail.
\<close>

theorem move_failure_aborts_batch:
  "fst (should_move new_analyzer ''region'' ''Asia'' ''a (Asia).zip'') \<and>
   fst (should_move new_analyzer ''region'' ''Asia'' ''c (Asia).zip'') \<and>
   fst (move_files_by_criteria new_analyzer [''a (Asia).zip'', ''c (Asia).zip'']
          ''region'' ''Asia'' ''ROM_DELETE''
          \<lparr>existing = [], faults = [True], print_faults = [True], attempts = []\<rparr>) = Inl PrintError \<and>
   map fst (attempts (snd (snd (move_files_by_criteria new_analyzer
          [''a (Asia).zip'', ''c (Asia).zip''] ''region'' ''Asia'' ''ROM_DELETE''
          \<lparr>existing = [], faults = [True], print_faults = [True], attempts = []\<rparr>)))) =
     [''a (Asia).zip'']"
proof -
  have a: "fst (should_move new_analyzer ''region'' ''Asia'' ''a (Asia).zip'')"
    by (simp add: should_move_def case_prod_beta detect_regions_fst regions_a)
  have c: "fst (should_move new_analyzer ''region'' ''Asia'' ''c (Asia).zip'')"
    by (simp add: should_move_def case_prod_beta detect_regions_fst regions_c)
  show ?thesis
    using a c criteria_loop_aborts [OF a, of
        "\<lparr>existing = [], faults = [True], print_faults = [True], attempts = []\<rparr>" "[]" "[]"
        "''ROM_DELETE''" "[''c (Asia).zip'']" "[]"]
    by (simp add: move_files_by_criteria_def)
qed

lemma keep_main_loop_Cons:
  "\<exists>a'. keep_main_loop destination_folder (rom_file # rest) (moved_files, a, w) =
          (if set (fst (detect_regions a0 rom_file)) \<inter> keep_regions = {}
           then (case move_file destination_folder rom_file (moved_files, w) of
                   (Inl e, w') \<Rightarrow> (Inl e, a', w')
                 | (Inr moved_files', w') \<Rightarrow>
                     keep_main_loop destination_folder rest (moved_files', a', w'))
           else keep_main_loop destination_folder rest (moved_files, a', w))"
proof -
  have "fst (detect_regions a rom_file) = fst (detect_regions a0 rom_file)"
    by (simp add: detect_regions_fst)
  then show ?thesis
    by (auto simp: case_prod_beta Let_def list_ex_iff)
qed

lemma keep_main_moved:
  assumes "True \<notin> set (faults w) \<or> True \<notin> set (print_faults w)"
  shows "fst (move_files_keep_main_regions a rom_files destination_folder w) =
     Inr (moved_under (faults w)
       (filter (\<lambda>rom_file. set (fst (detect_regions a rom_file)) \<inter> keep_regions = {}) rom_files))"
proof -
  let ?sel = "\<lambda>rom_file. set (fst (detect_regions a rom_file)) \<inter> keep_regions = {}"
  obtain a' w' where
    "keep_main_loop destination_folder rom_files ([], a, w) =
       (Inr ([] @ moved_under (faults w) (filter ?sel rom_files)), a', w')"
    using loop_moves_selected [of "keep_main_loop destination_folder" ?sel destination_folder
        w rom_files "[]" a, OF _ keep_main_loop_Cons assms]
    by auto
  then show ?thesis
    by (simp add: move_files_keep_main_regions_def)
qed

lemma first_in_Some: "first_in priority regions = Some r \<Longrightarrow> r \<in> set priority \<and> r \<in> set regions"
  by (induction priority) (auto split: if_splits)

lemma first_in_None: "first_in priority regions = None \<Longrightarrow> set priority \<inter> set regions = {}"
  by (induction priority) (auto split: if_splits)

lemma primary_of_keep:
  assumes "set priority = keep_regions" and "regions \<noteq> []"
  shows "primary_of priority regions \<notin> keep_regions \<longleftrightarrow> set regions \<inter> keep_regions = {}"
proof (cases regions)
  case Nil
  then show ?thesis using assms by simp
next
  case (Cons r0 rest)
  show ?thesis
  proof (cases "first_in priority regions")
    case None
    then have "set regions \<inter> keep_regions = {}"
      using first_in_None [of priority regions] assms(1) by auto
    moreover have "primary_of priority regions = r0"
      using None Cons by (simp add: primary_of_def)
    ultimately show ?thesis using Cons by auto
  next
    case (Some r)
    then have "r \<in> keep_regions" "r \<in> set regions"
      using first_in_Some [of priority regions r] assms(1) by auto
    moreover have "primary_of priority regions = r"
      using Some Cons by (simp add: primary_of_def)
    ultimately show ?thesis by auto
  qed
qed

lemma log_unknown_regions_priority:
  "region_priority (log_unknown_regions filename a) = region_priority a"
proof -
  have "region_priority (fold (\<lambda>match a.
             if CHR '','' \<in> set match then a
             else if \<not> is_special_text match \<and> length match \<le> 20
             then a\<lparr>unknown_regions := insert match (unknown_regions a)\<rparr>
             else a) ms a) = region_priority a" for ms
    by (induction ms arbitrary: a) auto
  then show ?thesis by (simp add: log_unknown_regions_def)
qed

lemma detect_regions_priority:
  "region_priority (snd (detect_regions a filename)) = region_priority a"
  by (simp add: detect_regions_def Let_def log_unknown_regions_priority)

lemma get_primary_region_fst:
  "fst (get_primary_region a filename) = primary_of (region_priority a) (fst (detect_regions a filename))"
  by (simp add: get_primary_region_def case_prod_beta detect_regions_priority)

lemma primary_region_keep:
  assumes "set (region_priority a) = keep_regions"
  shows "fst (get_primary_region a filename) \<notin> keep_regions \<longleftrightarrow>
         set (fst (detect_regions a filename)) \<inter> keep_regions = {}"
  unfolding get_primary_region_fst
  using primary_of_keep [OF assms, of "fst (detect_regions a filename)"]
  by (simp add: detect_regions_fst default_rule_nonempty)

text \<open>
  C2, as amended. \<open>move_files_keep_main_regions\<close> selects the files none of whose
  detected regions is USA, Europe, Japan or World. When no move fails, or the error of
  every failed move can be printed, the list of moved files is returned and is made of
  the selected files whose move did not fail. When the priority order is made of these
  four regions, as the default order is, and no move fails, a file is in the list of
  moved files exactly when its primary region is none of the four.
\<close>

theorem keep_main_regions_selection:
  "(True \<notin> set (faults w) \<or> True \<notin> set (print_faults w) \<longrightarrow>
      fst (move_files_keep_main_regions a rom_files destination_folder w) =
        Inr (moved_under (faults w)
          (filter (\<lambda>rom_file. set (fst (detect_regions a rom_file)) \<inter> keep_regions = {})
             rom_files))) \<and>
   (set (region_priority a) = keep_regions \<and> True \<notin> set (faults w) \<longrightarrow>
      fst (move_files_keep_main_regions a rom_files destination_folder w) =
        Inr (filter (\<lambda>rom_file. fst (get_primary_region a rom_file) \<notin> keep_regions) rom_files))"
proof -
  let ?sel = "\<lambda>rom_file. set (fst (detect_regions a rom_file)) \<inter> keep_regions = {}"
  have general: "fst (move_files_keep_main_regions a rom_files destination_folder w) =
      Inr (moved_under (faults w) (filter ?sel rom_files))"
    if "True \<notin> set (faults w) \<or> True \<notin> set (print_faults w)"
    using that by (rule keep_main_moved)
  have "fst (move_files_keep_main_regions a rom_files destination_folder w) =
          Inr (filter (\<lambda>rom_file. fst (get_primary_region a rom_file) \<notin> keep_regions) rom_files)"
    if pr: "set (region_priority a) = keep_regions" and nf: "True \<notin> set (faults w)"
  proof -
    have "filter ?sel rom_files =
            filter (\<lambda>rom_file. fst (get_primary_region a rom_file) \<notin> keep_regions) rom_files"
      using primary_region_keep [OF pr] by simp
    then show ?thesis using general nf by (simp add: moved_under_no_fault)
  qed
  then show ?thesis using general by blast
qed

lemma default_priority_keep: "set (region_priority new_analyzer) = keep_regions"
  by (auto simp: new_analyzer_def keep_regions_def)

lemma primary_a: "fst (get_primary_region new_analyzer ''a (Asia).zip'') = ''Asia''"
  by (simp add: get_primary_region_fst detect_regions_fst regions_a primary_of_def new_analyzer_def)

lemma primary_b: "fst (get_primary_region new_analyzer ''b (USA).zip'') = ''USA''"
  by (simp add: get_primary_region_fst detect_regions_fst regions_b primary_of_def new_analyzer_def)

theorem keep_main_regions_selection_witness:
  "set (region_priority new_analyzer) = keep_regions \<and>
   fst (move_files_keep_main_regions new_analyzer [''a (Asia).zip'', ''b (USA).zip''] ''ROM_DELETE''
          \<lparr>existing = [], faults = [], print_faults = [], attempts = []\<rparr>) = Inr [''a (Asia).zip''] \<and>
   fst (move_files_keep_main_regions new_analyzer
          [''a (Asia).zip'', ''b (USA).zip'', ''c (Asia).zip''] ''ROM_DELETE''
          \<lparr>existing = [], faults = [True, False], print_faults = [False], attempts = []\<rparr>) =
     Inr [''c (Asia).zip'']"
proof -
  let ?w = "\<lparr>existing = [], faults = [], print_faults = [], attempts = []\<rparr>"
  let ?v = "\<lparr>existing = [], faults = [True, False], print_faults = [False], attempts = []\<rparr>"
  have nf: "True \<notin> set (faults ?w)"
    by simp
  have "fst (move_files_keep_main_regions new_analyzer [''a (Asia).zip'', ''b (USA).zip''] ''ROM_DELETE'' ?w) =
        Inr (filter (\<lambda>rom_file. fst (get_primary_region new_analyzer rom_file) \<notin> keep_regions)
          [''a (Asia).zip'', ''b (USA).zip''])"
    using keep_main_regions_selection [of ?w new_analyzer "[''a (Asia).zip'', ''b (USA).zip'']"
        "''ROM_DELETE''"]
      default_priority_keep nf
    by blast
  then have first: "fst (move_files_keep_main_regions new_analyzer [''a (Asia).zip'', ''b (USA).zip'']
        ''ROM_DELETE'' ?w) = Inr [''a (Asia).zip'']"
    by (simp add: primary_a primary_b keep_regions_def)
  have np: "True \<notin> set (print_faults ?v)"
    by simp
  have "fst (move_files_keep_main_regions new_analyzer
          [''a (Asia).zip'', ''b (USA).zip'', ''c (Asia).zip''] ''ROM_DELETE'' ?v) =
        Inr (moved_under (faults ?v)
          (filter (\<lambda>rom_file. set (fst (detect_regions new_analyzer rom_file)) \<inter> keep_regions = {})
             [''a (Asia).zip'', ''b (USA).zip'', ''c (Asia).zip'']))"
    using keep_main_regions_selection [of ?v new_analyzer
        "[''a (Asia).zip'', ''b (USA).zip'', ''c (Asia).zip'']" "''ROM_DELETE''"] np
    by blast
  then have second: "fst (move_files_keep_main_regions new_analyzer
          [''a (Asia).zip'', ''b (USA).zip'', ''c (Asia).zip''] ''ROM_DELETE'' ?v) =
        Inr [''c (Asia).zip'']"
    by (simp add: detect_regions_fst regions_a regions_b regions_c keep_regions_def)
  show ?thesis
    using default_priority_keep first second by blast
qed

lemma asia_first_priority:
  "region_priority asia_first = [''Asia'', ''USA'', ''World'', ''Europe'', ''Japan'']"
  by code_simp

lemma regions_usa_asia:
  "default_rule (translation_rule ''Game (USA, Asia).zip'' (found_regions ''Game (USA, Asia).zip'')) =
     [''USA'', ''Asia'']"
  by code_simp

text \<open>
  With the priority order \<open>Asia, USA, World, Europe, Japan\<close> read from the
  configuration, the primary region of \<open>Game (USA, Asia).zip\<close> is Asia, outside the
  four regions, and the file is not moved although no move fails.
\<close>

theorem keep_main_regions_counterexample:
  "fst (get_primary_region asia_first ''Game (USA, Asia).zip'') = ''Asia'' \<and>
   ''Asia'' \<notin> keep_regions \<and>
   fst (move_files_keep_main_regions asia_first [''Game (USA, Asia).zip''] ''ROM_DELETE''
       \<lparr>existing = [], faults = [], print_faults = [], attempts = []\<rparr>) = Inr []"
  by (simp add: keep_main_moved get_primary_region_fst detect_regions_fst regions_usa_asia
        asia_first_priority primary_of_def keep_regions_def)

section \<open>What the matcher consumes\<close>

lemma ceq_paren: "ceq ic CHR ''('' x \<longleftrightarrow> x = CHR ''(''"
  by (cases x) (auto simp: ceq_def lower_char_bits is_upper_bits split: if_splits)

lemma ceq_bracket: "ceq ic CHR ''['' x \<longleftrightarrow> x = CHR ''[''"
  by (cases x) (auto simp: ceq_def lower_char_bits is_upper_bits split: if_splits)

lemma caseless_brackets: "caseless ''([''"
  by (simp add: caseless_def ceq_paren ceq_bracket)

lemma caseless_paren: "caseless ''(''"
  by (simp add: caseless_def ceq_paren)

lemma caseless_bracket: "caseless ''[''"
  by (simp add: caseless_def ceq_bracket)

lemma str_m_suffix:
  "(p', s', g') \<in> set (str_m ic w (p, s, g)) \<Longrightarrow> \<exists>u. s = u @ s' \<and> length u = length w"
proof (induction w arbitrary: p s)
  case Nil
  then show ?case by simp
next
  case (Cons c w)
  show ?case
  proof (cases s)
    case Nil
    then show ?thesis using Cons.prems by simp
  next
    case (Cons x xs)
    then have "ceq ic c x" and "(p', s', g') \<in> set (str_m ic w (Some x, xs, g))"
      using Cons.prems by (auto split: if_splits)
    then obtain u where "xs = u @ s'" "length u = length w"
      using Cons.IH by blast
    then show ?thesis using Cons by (intro exI [of _ "x # u"]) simp
  qed
qed

lemma str_m_chars:
  assumes "(p', s', g') \<in> set (str_m ic w (p, u @ s', g))" and "length u = length w"
  shows "list_all2 (ceq ic) w u"
  using assms
proof (induction w arbitrary: p u)
  case Nil
  then show ?case by simp
next
  case (Cons c w)
  then obtain x xs where u: "u = x # xs" by (cases u) auto
  then have "ceq ic c x" and "(p', s', g') \<in> set (str_m ic w (Some x, xs @ s', g))"
    using Cons.prems by (auto split: if_splits)
  then show ?case using Cons.IH [of "Some x" xs] Cons.prems(2) u by simp
qed

lemma atom_m_suffix:
  "(p', s', g') \<in> set (atom_m ic a (p, s, g)) \<Longrightarrow> \<exists>x. s = x # s'"
  by (cases s) (auto split: if_splits)

lemma star_g_suffix:
  "(p', s', g') \<in> set (star_g ic a (p, s, g)) \<Longrightarrow> \<exists>u. s = u @ s'"
proof (induction s arbitrary: p)
  case Nil
  then show ?case by simp
next
  case (Cons x xs)
  show ?case
  proof (cases "(p', s', g') = (p, x # xs, g)")
    case True
    then show ?thesis by simp
  next
    case False
    then have "(p', s', g') \<in> set (star_g ic a (Some x, xs, g))"
      using Cons.prems by (auto split: if_splits)
    then obtain u where "xs = u @ s'" using Cons.IH by blast
    then show ?thesis by (intro exI [of _ "x # u"]) simp
  qed
qed

lemma star_l_suffix:
  "(p', s', g') \<in> set (star_l ic a (p, s, g)) \<Longrightarrow> \<exists>u. s = u @ s'"
proof (induction s arbitrary: p)
  case Nil
  then show ?case by simp
next
  case (Cons x xs)
  show ?case
  proof (cases "(p', s', g') = (p, x # xs, g)")
    case True
    then show ?thesis by simp
  next
    case False
    then have "(p', s', g') \<in> set (star_l ic a (Some x, xs, g))"
      using Cons.prems by (auto split: if_splits)
    then obtain u where "xs = u @ s'" using Cons.IH by blast
    then show ?thesis by (intro exI [of _ "x # u"]) simp
  qed
qed

lemma ms_suffix:
  "(p', s', g') \<in> set (ms ic r (p, s, g)) \<Longrightarrow> \<exists>u. s = u @ s'"
proof (induction r arbitrary: p s g p' s' g')
  case Eps
  then show ?case by simp
next
  case (Str w)
  then show ?case using str_m_suffix [of p' s' g' ic w p s g] by auto
next
  case (Atom a)
  then show ?case using atom_m_suffix [of p' s' g' ic a p s g] by auto
next
  case Bnd
  then show ?case by (auto split: if_splits)
next
  case (Cat a b)
  then obtain p1 s1 g1 where m1: "(p1, s1, g1) \<in> set (ms ic a (p, s, g))"
    and m2: "(p', s', g') \<in> set (ms ic b (p1, s1, g1))"
    by auto
  obtain u where "s = u @ s1" using Cat.IH(1) [OF m1] by blast
  moreover obtain v where "s1 = v @ s'" using Cat.IH(2) [OF m2] by blast
  ultimately show ?case by simp
next
  case (Alt a b)
  then show ?case by auto
next
  case (Opt a)
  then show ?case by auto
next
  case (Star a)
  then show ?case using star_g_suffix [of p' s' g' ic a p s g] by auto
next
  case (Plus a)
  then obtain p1 s1 g1 where m1: "(p1, s1, g1) \<in> set (atom_m ic a (p, s, g))"
    and m2: "(p', s', g') \<in> set (star_g ic a (p1, s1, g1))"
    by auto
  obtain x where "s = x # s1" using atom_m_suffix [OF m1] by blast
  moreover obtain v where "s1 = v @ s'" using star_g_suffix [OF m2] by blast
  ultimately show ?case by simp
next
  case (LazyStar a)
  then show ?case using star_l_suffix [of p' s' g' ic a p s g] by auto
next
  case (Grp i a)
  then obtain p1 s1 g1 where "(p1, s1, g1) \<in> set (ms ic a (p, s, g))" "s' = s1"
    by auto
  then show ?case using Grp.IH by blast
next
  case (NegAhead a)
  then show ?case by (auto split: if_splits)
qed

lemma ms_needs:
  assumes "caseless cs"
  shows "needs cs r \<Longrightarrow> (p', s', g') \<in> set (ms ic r (p, s, g)) \<Longrightarrow>
         \<exists>u. s = u @ s' \<and> set u \<inter> set cs \<noteq> {}"
proof (induction r arbitrary: p s g p' s' g')
  case (Str w)
  then obtain u where u: "s = u @ s'" "length u = length w"
    using str_m_suffix [of p' s' g' ic w p s g] by auto
  then have all: "list_all2 (ceq ic) w u"
    using str_m_chars [of p' s' g' ic w p u g] Str.prems by simp
  obtain c where c: "c \<in> set w" "c \<in> set cs"
    using Str.prems(1) by (auto simp: list_ex_iff)
  then obtain i where i: "i < length w" "w ! i = c"
    by (auto simp: in_set_conv_nth)
  then have "ceq ic c (u ! i)" using all by (auto simp: list_all2_conv_all_nth)
  then have "u ! i = c" using assms c(2) by (auto simp: caseless_def)
  then have "c \<in> set u" using i(1) u(2) by (metis nth_mem)
  then show ?case using u(1) c(2) by auto
next
  case (Cat a b)
  then obtain p1 s1 g1 where m1: "(p1, s1, g1) \<in> set (ms ic a (p, s, g))"
    and m2: "(p', s', g') \<in> set (ms ic b (p1, s1, g1))"
    by auto
  obtain u where u: "s = u @ s1" using ms_suffix [OF m1] by blast
  obtain v where v: "s1 = v @ s'" using ms_suffix [OF m2] by blast
  show ?case
  proof (cases "needs cs a")
    case True
    then obtain u' where "s = u' @ s1" "set u' \<inter> set cs \<noteq> {}"
      using Cat.IH(1) [OF _ m1] by blast
    then show ?thesis using v by (intro exI [of _ "u' @ v"]) auto
  next
    case False
    then have "needs cs b" using Cat.prems(1) by simp
    then obtain v' where "s1 = v' @ s'" "set v' \<inter> set cs \<noteq> {}"
      using Cat.IH(2) [OF _ m2] by blast
    then show ?thesis using u by (intro exI [of _ "u @ v'"]) auto
  qed
next
  case (Alt a b)
  then show ?case by auto
next
  case (Grp i a)
  then obtain p1 s1 g1 where "(p1, s1, g1) \<in> set (ms ic a (p, s, g))" "s' = s1"
    by auto
  then show ?case using Grp.IH Grp.prems(1) by auto
qed simp_all

lemma ms_needs_none:
  assumes "caseless cs" and "needs cs r" and "set s \<inter> set cs = {}"
  shows "ms ic r (p, s, g) = []"
proof (rule ccontr)
  assume "ms ic r (p, s, g) \<noteq> []"
  then obtain p' s' g' where "(p', s', g') \<in> set (ms ic r (p, s, g))"
    by (cases "ms ic r (p, s, g)") auto
  then obtain u where "s = u @ s'" "set u \<inter> set cs \<noteq> {}"
    using ms_needs [OF assms(1,2)] by blast
  then show False using assms(3) by auto
qed

lemma region_strip_needs:
  "list_all (needs ''(['') (filter paren_form (concat (map snd region_patterns)))"
  by code_simp

lemma special_strip_needs: "list_all (needs ''(['') (concat (map snd special_patterns))"
  by code_simp

lemma version_strip_needs: "list_all (needs ''(['') (map snd version_patterns)"
  by code_simp

section \<open>White space\<close>

lemma star_g_head:
  "\<exists>p' rest. star_g ic a (p, s, g) = (p', dropWhile (am ic a) s, g) # rest"
proof (induction s arbitrary: p)
  case Nil
  then show ?case by simp
next
  case (Cons x xs)
  obtain p' rest where "star_g ic a (Some x, xs, g) = (p', dropWhile (am ic a) xs, g) # rest"
    using Cons.IH by blast
  then show ?case by simp
qed

lemma ms_plus_space:
  "ms False (Plus Space) (p, s, g) =
     (case s of
        [] \<Rightarrow> []
      | x # xs \<Rightarrow> if is_space x then star_g False Space (Some x, xs, g) else [])"
  by (cases s) auto

lemma sub_plus_space: "sub_from False (Plus Space) '' '' p s = squeeze s"
proof (induction s arbitrary: p rule: squeeze.induct)
  case 1
  show ?case by (subst sub_from.simps) (simp add: ms_plus_space)
next
  case (2 x xs)
  show ?case
  proof (cases "is_space x")
    case False
    then show ?thesis
      using 2(2) [OF False] by (subst sub_from.simps) (simp add: ms_plus_space)
  next
    case True
    obtain p' rest where h:
      "star_g False Space (Some x, xs, []) = (p', dropWhile (am False Space) xs, []) # rest"
      using star_g_head by blast
    have d: "dropWhile (am False Space) xs = dropWhile is_space xs"
      by (rule arg_cong [of _ _ "\<lambda>f. dropWhile f xs"]) auto
    have len: "length (dropWhile is_space xs) < length (x # xs)"
      by (simp add: length_dropWhile_le less_Suc_eq_le)
    show ?thesis
      using 2(1) [OF True, of p'] True len
      by (subst sub_from.simps) (simp add: ms_plus_space h d)
  qed
qed

lemma re_sub_plus_space: "re_sub False (Plus Space) '' '' s = squeeze s"
  by (simp add: re_sub_def sub_plus_space)

lemma squeeze_head_nonspace:
  "s \<noteq> [] \<Longrightarrow> \<not> is_space (hd s) \<Longrightarrow> squeeze s \<noteq> [] \<and> hd (squeeze s) = hd s"
  by (cases s) auto

lemma dropWhile_head: "dropWhile P s \<noteq> [] \<Longrightarrow> \<not> P (hd (dropWhile P s))"
  using hd_dropWhile by blast

lemma tidy_Cons:
  "tidy (x # s) \<longleftrightarrow> (is_space x \<longrightarrow> x = CHR '' '' \<and> (s \<noteq> [] \<longrightarrow> \<not> is_space (hd s))) \<and> tidy s"
  by (cases s) auto

lemma tidy_squeeze: "tidy (squeeze s)"
proof (induction s rule: squeeze.induct)
  case 1
  show ?case by simp
next
  case (2 x xs)
  show ?case
  proof (cases "is_space x")
    case False
    then show ?thesis using 2(2) by (simp add: tidy_Cons)
  next
    case True
    let ?d = "dropWhile is_space xs"
    have "squeeze ?d \<noteq> [] \<longrightarrow> \<not> is_space (hd (squeeze ?d))"
    proof (cases "?d = []")
      case True
      have "squeeze ?d = []" by (simp only: True squeeze.simps)
      then show ?thesis by blast
    next
      case False
      then have "\<not> is_space (hd ?d)" by (rule dropWhile_head)
      then show ?thesis using squeeze_head_nonspace [OF False] by simp
    qed
    then show ?thesis using True 2(1) by (simp add: tidy_Cons)
  qed
qed

lemma squeeze_tidy: "tidy s \<Longrightarrow> squeeze s = s"
proof (induction s rule: tidy.induct)
  case 1
  show ?case by simp
next
  case (2 x)
  then show ?case by auto
next
  case (3 x y zs)
  then show ?case by auto
qed

lemma tidy_append:
  "tidy (a @ b) \<longleftrightarrow>
     tidy a \<and> tidy b \<and> (a \<noteq> [] \<and> b \<noteq> [] \<longrightarrow> \<not> (is_space (last a) \<and> is_space (hd b)))"
proof (induction a rule: tidy.induct)
  case 1
  show ?case by simp
next
  case (2 x)
  show ?case by (cases b) auto
next
  case (3 x y zs)
  then show ?case by auto
qed

lemma tidy_rev: "tidy (rev s) = tidy s"
proof (induction s)
  case Nil
  show ?case by simp
next
  case (Cons x s)
  have "tidy (rev s @ [x]) \<longleftrightarrow>
          tidy (rev s) \<and> tidy [x] \<and> (rev s \<noteq> [] \<longrightarrow> \<not> (is_space (last (rev s)) \<and> is_space x))"
    by (simp add: tidy_append)
  also have "\<dots> \<longleftrightarrow> tidy s \<and> tidy [x] \<and> (s \<noteq> [] \<longrightarrow> \<not> (is_space (hd s) \<and> is_space x))"
    using Cons.IH by (simp add: last_rev)
  also have "\<dots> \<longleftrightarrow> tidy (x # s)"
    by (cases s) auto
  finally show ?case by simp
qed

lemma tidy_dropWhile: "tidy s \<Longrightarrow> tidy (dropWhile P s)"
proof (induction s)
  case Nil
  then show ?case by simp
next
  case (Cons x s)
  then show ?case by (auto simp: tidy_Cons)
qed

lemma tidy_strip: "tidy s \<Longrightarrow> tidy (strip s)"
  by (simp add: strip_def tidy_rev tidy_dropWhile)

lemma strip_id:
  assumes "y = [] \<or> (\<not> is_space (hd y) \<and> \<not> is_space (last y))"
  shows "strip y = y"
proof (cases "y = []")
  case True
  then show ?thesis by (simp add: strip_def)
next
  case False
  then have h: "\<not> is_space (hd y)" and l: "\<not> is_space (last y)" using assms by auto
  have "dropWhile is_space y = y"
    using False h by (cases y) auto
  moreover have "dropWhile is_space (rev y) = rev y"
    using False l by (cases "rev y") (auto simp: last_rev [symmetric] hd_rev)
  ultimately show ?thesis by (simp add: strip_def)
qed

lemma strip_ends:
  "strip s = [] \<or> (\<not> is_space (hd (strip s)) \<and> \<not> is_space (last (strip s)))"
proof (cases "strip s = []")
  case True
  then show ?thesis by simp
next
  case False
  let ?t = "dropWhile is_space s"
  let ?r = "dropWhile is_space (rev ?t)"
  have sr: "strip s = rev ?r" by (simp add: strip_def)
  then have rne: "?r \<noteq> []" using False by simp
  then have "\<not> is_space (hd ?r)" by (rule dropWhile_head)
  then have l: "\<not> is_space (last (strip s))"
    using rne by (simp add: sr last_rev)
  obtain u where u: "rev ?t = u @ ?r"
    by (metis takeWhile_dropWhile_id)
  then have "?t = rev ?r @ rev u" by (metis rev_append rev_rev_ident)
  then have t: "?t = strip s @ rev u" by (simp add: sr)
  then have "?t \<noteq> []" using False by auto
  then have "\<not> is_space (hd ?t)" by (rule dropWhile_head)
  then have "\<not> is_space (hd (strip s))"
    using t False by (metis hd_append2)
  then show ?thesis using l by simp
qed

section \<open>Properties of the base name\<close>

lemma get_base_filename_steps:
  "get_base_filename filename = tidy_up (strip_tags (base_stem filename))"
  by (simp add: get_base_filename_def base_stem_def strip_tags_def tidy_up_def Let_def)

lemma split_on_no_sep: "c \<notin> set s \<Longrightarrow> split_on c s = [s]"
  by (induction s) auto

lemma split_on_parts: "w \<in> set (split_on c s) \<Longrightarrow> c \<notin> set w"
proof (induction s arbitrary: w)
  case Nil
  then show ?case by simp
next
  case (Cons x xs)
  show ?case
  proof (cases "x = c")
    case True
    then show ?thesis using Cons by auto
  next
    case False
    then show ?thesis
      using Cons by (cases "split_on c xs") (auto split: list.splits)
  qed
qed

lemma path_name_eq:
  "path_name s =
     (case filter (\<lambda>x. x \<noteq> [] \<and> x \<noteq> ''.'') (split_on CHR ''/'' s) of
        [] \<Rightarrow> []
      | x # xs \<Rightarrow> last (x # xs))"
  by (simp add: path_name_def name_of_def Path_def path_parts_def)

lemma path_name_no_slash: "CHR ''/'' \<notin> set (path_name s)"
proof -
  let ?parts = "filter (\<lambda>x. x \<noteq> [] \<and> x \<noteq> ''.'') (split_on CHR ''/'' s)"
  show ?thesis
  proof (cases ?parts)
    case Nil
    then show ?thesis by (simp add: path_name_eq)
  next
    case (Cons x xs)
    then have "path_name s = last ?parts" by (simp add: path_name_eq)
    moreover have "last ?parts \<in> set ?parts" using Cons by (simp del: set_filter)
    ultimately have "path_name s \<in> set (split_on CHR ''/'' s)" by auto
    then show ?thesis by (rule split_on_parts)
  qed
qed

lemma name_stem_subset: "set (name_stem n) \<subseteq> set n"
  by (auto simp: name_stem_def split: option.splits dest: in_set_takeD)

lemma stem_no_slash: "CHR ''/'' \<notin> set (stem s)"
  using path_name_no_slash [of s] name_stem_subset [of "path_name s"]
  by (auto simp: stem_def)

lemma base_stem_no_slash: "CHR ''/'' \<notin> set (base_stem s)"
  using stem_no_slash by (simp add: base_stem_def Let_def)

lemma sub_from_subset: "set (sub_from ic r repl p s) \<subseteq> set s \<union> set repl"
proof (induction ic r repl p s rule: sub_from.induct)
  case (1 ic r repl p s)
  show ?case
  proof (cases "ms ic r (p, s, [])")
    case Nil
    show ?thesis
    proof (cases s)
      case Nil
      then show ?thesis using \<open>ms ic r (p, s, []) = []\<close> by (subst sub_from.simps) simp
    next
      case (Cons x xs)
      then show ?thesis
        using 1(1) [OF \<open>ms ic r (p, s, []) = []\<close> Cons] \<open>ms ic r (p, s, []) = []\<close>
        by (subst sub_from.simps) auto
    qed
  next
    case (Cons m rest)
    obtain p' s' g where m: "m = (p', s', g)" by (cases m) auto
    have "(p', s', g) \<in> set (ms ic r (p, s, []))" using Cons m by simp
    then obtain u where u: "s = u @ s'" using ms_suffix by blast
    show ?thesis
    proof (cases "length s' < length s")
      case True
      have "set (sub_from ic r repl p' s') \<subseteq> set s' \<union> set repl"
        using 1(2) [OF Cons [unfolded m] refl refl True] .
      then show ?thesis
        using Cons m True u by (subst sub_from.simps) auto
    next
      case False
      show ?thesis
      proof (cases s)
        case Nil
        then show ?thesis using Cons m False by (subst sub_from.simps) auto
      next
        case (Cons x xs)
        have "set (sub_from ic r repl (Some x) xs) \<subseteq> set xs \<union> set repl"
          using 1(3) [OF \<open>ms ic r (p, s, []) = m # rest\<close> [unfolded m] refl refl False Cons] .
        then show ?thesis
          using \<open>ms ic r (p, s, []) = m # rest\<close> m False Cons by (subst sub_from.simps) auto
      qed
    qed
  qed
qed

lemma re_sub_subset: "set (re_sub ic r repl s) \<subseteq> set s \<union> set repl"
  by (simp add: re_sub_def sub_from_subset)

lemma strip_patterns_subset: "set (strip_patterns ps s) \<subseteq> set s"
  unfolding strip_patterns_def
proof (induction ps arbitrary: s)
  case Nil
  show ?case by simp
next
  case (Cons r ps)
  have "set (fold (\<lambda>r n. re_sub True r [] n) ps (re_sub True r [] s)) \<subseteq> set (re_sub True r [] s)"
    by (rule Cons.IH)
  then show ?case using re_sub_subset [of True r "[]" s] by auto
qed

lemma strip_tags_subset: "set (strip_tags s) \<subseteq> set s"
  unfolding strip_tags_def
  using strip_patterns_subset by (meson subset_trans)

lemma strip_subset: "set (strip s) \<subseteq> set s"
  by (auto simp: strip_def dest!: set_dropWhileD)

lemma tidy_up_subset: "set (tidy_up s) \<subseteq> set s \<union> {CHR '' ''}"
proof -
  let ?e1 = "cat [Star Space, Str ''('', Star Space, Str '')'']"
  let ?e2 = "cat [Star Space, Str ''['', Star Space, Str '']'']"
  have "set (re_sub False ?e1 [] s) \<subseteq> set s"
    using re_sub_subset [of False ?e1 "[]" s] by simp
  moreover have "set (re_sub False ?e2 [] (re_sub False ?e1 [] s)) \<subseteq> set (re_sub False ?e1 [] s)"
    using re_sub_subset [of False ?e2 "[]"] by simp
  moreover have "set (re_sub False (Plus Space) '' '' (re_sub False ?e2 [] (re_sub False ?e1 [] s)))
      \<subseteq> set (re_sub False ?e2 [] (re_sub False ?e1 [] s)) \<union> {CHR '' ''}"
    using re_sub_subset [of False "Plus Space" "'' ''"] by simp
  ultimately show ?thesis
    unfolding tidy_up_def using strip_subset by blast
qed

lemma base_no_slash: "CHR ''/'' \<notin> set (get_base_filename filename)"
  using tidy_up_subset [of "strip_tags (base_stem filename)"]
    strip_tags_subset [of "base_stem filename"] base_stem_no_slash [of filename]
  by (auto simp: get_base_filename_steps)

lemma tidy_up_tidy: "tidy (tidy_up s)"
  by (simp add: tidy_up_def re_sub_plus_space tidy_strip tidy_squeeze)

lemma tidy_up_ends:
  "tidy_up s = [] \<or> (\<not> is_space (hd (tidy_up s)) \<and> \<not> is_space (last (tidy_up s)))"
  unfolding tidy_up_def by (rule strip_ends)

lemma name_stem_take: "\<exists>k. name_stem n = take k n"
proof (cases "name_stem n = n")
  case True
  then show ?thesis by (intro exI [of _ "length n"]) simp
next
  case False
  then show ?thesis by (auto simp: name_stem_def split: option.splits if_splits)
qed

lemma name_stem_fixed: "name_stem n = n \<Longrightarrow> name_suffix n = []"
proof (cases "rfind CHR ''.'' n")
  case None
  then show ?thesis by (simp add: name_suffix_def)
next
  case (Some i)
  assume fixed: "name_stem n = n"
  show ?thesis
  proof (cases "0 < i \<and> i < length n - 1")
    case True
    then have "take i n = n" using fixed Some by (simp add: name_stem_def)
    then have "length (take i n) = length n" by simp
    then have "length n \<le> i" by simp
    then show ?thesis using True by linarith
  next
    case False
    then show ?thesis using Some by (auto simp: name_suffix_def)
  qed
qed

lemma path_name_plain:
  "CHR ''/'' \<notin> set y \<Longrightarrow> path_name y = (if y = [] \<or> y = ''.'' then [] else y)"
  by (simp add: path_name_eq split_on_no_sep)

lemma stem_take:
  assumes "CHR ''/'' \<notin> set y"
  shows "\<exists>k. stem y = take k y"
proof (cases "y = [] \<or> y = ''.''")
  case True
  then have "stem y = take 0 y"
    using assms by (auto simp: stem_def path_name_plain name_stem_def)
  then show ?thesis by blast
next
  case False
  then show ?thesis
    using assms name_stem_take [of y] by (simp add: stem_def path_name_plain)
qed

lemma stem_fixed_suffix:
  assumes "CHR ''/'' \<notin> set y" and "stem y = y"
  shows "suffix y = []"
proof (cases "y = [] \<or> y = ''.''")
  case True
  then show ?thesis
    using assms by (auto simp: suffix_def path_name_plain name_suffix_def)
next
  case False
  then have "name_stem y = y" using assms by (simp add: stem_def path_name_plain)
  then show ?thesis
    using False assms(1) name_stem_fixed [of y] by (simp add: suffix_def path_name_plain)
qed

lemma take_same_length: "length (take k y) = length y \<Longrightarrow> take k y = y"
  by simp

lemma base_stem_take:
  assumes "CHR ''/'' \<notin> set y"
  shows "\<exists>k. base_stem y = take k y"
proof -
  obtain k where k: "stem y = take k y" using stem_take [OF assms] by blast
  obtain j where j: "stem (stem y) = take j (stem y)"
    using stem_take [OF stem_no_slash, of y] by blast
  have "stem (stem y) = take (min j k) y" using j k by (simp add: min.commute)
  then show ?thesis using k by (auto simp: base_stem_def Let_def)
qed

lemma base_stem_length:
  assumes "CHR ''/'' \<notin> set y"
  shows "length (base_stem y) \<le> length y"
  using base_stem_take [OF assms] by auto

lemma base_stem_fixed:
  assumes "CHR ''/'' \<notin> set y"
  shows "base_stem y = y \<longleftrightarrow> stem y = y"
proof
  assume "stem y = y"
  then show "base_stem y = y"
    using stem_fixed_suffix [OF assms] by (simp add: base_stem_def lower_def)
next
  assume fixed: "base_stem y = y"
  obtain k where k: "stem y = take k y" using stem_take [OF assms] by blast
  obtain j where j: "stem (stem y) = take j (stem y)"
    using stem_take [OF stem_no_slash, of y] by blast
  show "stem y = y"
  proof (cases "lower (suffix (stem y)) \<in> set [''.7z'', ''.zip'', ''.rar'']")
    case False
    then show ?thesis using fixed by (simp add: base_stem_def Let_def)
  next
    case True
    then have "take j (take k y) = y" using fixed j k by (simp add: base_stem_def Let_def)
    then have "length (take j (take k y)) = length y" by simp
    then have "length y \<le> k" by simp
    then show ?thesis using k by simp
  qed
qed

text \<open>A substitution by nothing never makes the text longer; it leaves the text as it
  is when the pattern is not found, and makes it shorter when a pattern that consumes
  input is found.\<close>

lemma search_from_None:
  "search_from ic r p s = None \<longleftrightarrow>
     ms ic r (p, s, []) = [] \<and>
     (case s of [] \<Rightarrow> True | x # xs \<Rightarrow> search_from ic r (Some x) xs = None)"
  by (subst search_from.simps) (auto split: list.splits)

lemma sub_from_not_found:
  "search_from ic r p s = None \<Longrightarrow> sub_from ic r repl p s = s"
proof (induction s arbitrary: p)
  case Nil
  then show ?case
    using search_from_None [of ic r p "[]"] by (subst sub_from.simps) simp
next
  case (Cons x xs)
  then have "ms ic r (p, x # xs, []) = []" and "search_from ic r (Some x) xs = None"
    using search_from_None [of ic r p "x # xs"] by auto
  then show ?case using Cons.IH by (subst sub_from.simps) simp
qed

lemma sub_from_length: "length (sub_from ic r [] p s) \<le> length s"
proof (induction "length s" arbitrary: p s rule: less_induct)
  case less
  show ?case
  proof (cases "ms ic r (p, s, [])")
    case Nil
    show ?thesis
    proof (cases s)
      case Nil
      then show ?thesis using \<open>ms ic r (p, s, []) = []\<close> by (subst sub_from.simps) simp
    next
      case (Cons x xs)
      then have "length (sub_from ic r [] (Some x) xs) \<le> length xs"
        using less [of xs "Some x"] by simp
      then show ?thesis
        using Cons \<open>ms ic r (p, s, []) = []\<close> by (subst sub_from.simps) simp
    qed
  next
    case (Cons m rest)
    obtain p' s' g where m: "m = (p', s', g)" by (cases m) auto
    show ?thesis
    proof (cases "length s' < length s")
      case True
      then have "length (sub_from ic r [] p' s') \<le> length s'"
        using less [of s' p'] by simp
      then show ?thesis
        using Cons m True by (subst sub_from.simps) simp
    next
      case False
      show ?thesis
      proof (cases s)
        case Nil
        then show ?thesis using Cons m False by (subst sub_from.simps) simp
      next
        case (Cons x xs)
        then have "length (sub_from ic r [] (Some x) xs) \<le> length xs"
          using less [of xs "Some x"] by simp
        then show ?thesis
          using \<open>ms ic r (p, s, []) = m # rest\<close> m False Cons by (subst sub_from.simps) simp
      qed
    qed
  qed
qed

lemma sub_from_shorter:
  assumes "caseless cs" and "needs cs r"
  shows "search_from ic r p s \<noteq> None \<Longrightarrow> length (sub_from ic r [] p s) < length s"
proof (induction s arbitrary: p)
  case Nil
  have "ms ic r (p, [], []) = []"
    using ms_needs_none [OF assms, of "[]"] by simp
  then show ?case using Nil search_from_None [of ic r p "[]"] by simp
next
  case (Cons x xs)
  show ?case
  proof (cases "ms ic r (p, x # xs, [])")
    case Nil
    then have "search_from ic r (Some x) xs \<noteq> None"
      using Cons.prems search_from_None [of ic r p "x # xs"] by simp
    then have "length (sub_from ic r [] (Some x) xs) < length xs"
      by (rule Cons.IH)
    then show ?thesis using Nil by (subst sub_from.simps) simp
  next
    case (Cons m rest)
    obtain p' s' g where m: "m = (p', s', g)" by (cases m) auto
    then have "(p', s', g) \<in> set (ms ic r (p, x # xs, []))" using Cons by simp
    then obtain u where "x # xs = u @ s'" "set u \<inter> set cs \<noteq> {}"
      using ms_needs [OF assms] by blast
    then have shorter: "length s' < length (x # xs)"
      by (cases u) (auto simp del: length_Cons dest: arg_cong [of _ _ length])
    moreover have "length (sub_from ic r [] p' s') \<le> length s'"
      by (rule sub_from_length)
    ultimately show ?thesis using Cons m by (subst sub_from.simps) simp
  qed
qed

lemma re_sub_not_found:
  assumes "\<not> re_found ic r s"
  shows "re_sub ic r repl s = s"
proof -
  have "search_from ic r None s = None"
    using assms unfolding re_found_def by blast
  then show ?thesis
    unfolding re_sub_def by (rule sub_from_not_found)
qed

lemma re_sub_length: "length (re_sub ic r [] s) \<le> length s"
  by (simp add: re_sub_def sub_from_length)

lemma re_sub_same_length:
  assumes "caseless cs" and "needs cs r" and "length (re_sub ic r [] s) = length s"
  shows "\<not> re_found ic r s"
  using sub_from_shorter [OF assms(1,2), of ic None s] assms(3)
  by (auto simp: re_found_def re_sub_def)

lemma strip_patterns_length: "length (strip_patterns ps s) \<le> length s"
  unfolding strip_patterns_def
proof (induction ps arbitrary: s)
  case Nil
  show ?case by simp
next
  case (Cons r ps)
  have "length (fold (\<lambda>r n. re_sub True r [] n) ps (re_sub True r [] s)) \<le> length (re_sub True r [] s)"
    by (rule Cons.IH)
  then show ?case using re_sub_length [of True r s] by simp
qed

lemma strip_patterns_not_found: "\<not> any_found ps s \<Longrightarrow> strip_patterns ps s = s"
  unfolding strip_patterns_def any_found_def
  by (induction ps) (simp_all add: re_sub_not_found)

lemma strip_patterns_same_length:
  assumes "caseless cs"
  shows "list_all (needs cs) ps \<Longrightarrow> length (strip_patterns ps s) = length s \<Longrightarrow> \<not> any_found ps s"
proof (induction ps)
  case Nil
  show ?case by (simp add: any_found_def)
next
  case (Cons r ps)
  have "length (strip_patterns ps (re_sub True r [] s)) \<le> length (re_sub True r [] s)"
    by (rule strip_patterns_length)
  then have "length (re_sub True r [] s) = length s"
    using Cons.prems(2) re_sub_length [of True r s] by (simp add: strip_patterns_def)
  then have nf: "\<not> re_found True r s"
    using Cons.prems(1) by (intro re_sub_same_length [OF assms]) simp_all
  then have "re_sub True r [] s = s" by (rule re_sub_not_found)
  then have "length (strip_patterns ps s) = length s"
    using Cons.prems(2) by (simp add: strip_patterns_def)
  then have "\<not> any_found ps s" using Cons by simp
  then show ?case using nf by (simp add: any_found_def)
qed

lemma strip_tags_stripped: "strip_tags s = strip_patterns stripped_patterns s"
  by (simp add: strip_tags_def stripped_patterns_def strip_patterns_def)

lemma stripped_patterns_needs: "list_all (needs ''(['') stripped_patterns"
  by (simp add: stripped_patterns_def region_strip_needs special_strip_needs version_strip_needs)

lemma squeeze_length: "length (squeeze s) \<le> length s"
proof (induction s rule: squeeze.induct)
  case 1
  show ?case by simp
next
  case (2 x xs)
  show ?case
  proof (cases "is_space x")
    case True
    then have "length (squeeze (dropWhile is_space xs)) \<le> length (dropWhile is_space xs)"
      using 2(1) by simp
    then show ?thesis
      using True length_dropWhile_le [of is_space xs] by simp
  next
    case False
    then show ?thesis using 2(2) by simp
  qed
qed

lemma strip_length: "length (strip s) \<le> length s"
proof -
  have "length (dropWhile is_space (rev (dropWhile is_space s))) \<le> length (dropWhile is_space s)"
    using length_dropWhile_le [of is_space "rev (dropWhile is_space s)"] by simp
  then show ?thesis
    using length_dropWhile_le [of is_space s] by (simp add: strip_def)
qed

lemma tidy_up_steps:
  "tidy_up s = strip (squeeze (re_sub False empty_brackets [] (re_sub False empty_parens [] s)))"
  by (simp only: tidy_up_def empty_parens_def empty_brackets_def re_sub_plus_space)

lemma tidy_up_length: "length (tidy_up s) \<le> length s"
proof -
  let ?s1 = "re_sub False empty_parens [] s"
  let ?s2 = "re_sub False empty_brackets [] ?s1"
  have "length (strip (squeeze ?s2)) \<le> length (squeeze ?s2)" by (rule strip_length)
  moreover have "length (squeeze ?s2) \<le> length ?s2" by (rule squeeze_length)
  moreover have "length ?s2 \<le> length ?s1" by (rule re_sub_length)
  moreover have "length ?s1 \<le> length s" by (rule re_sub_length)
  ultimately show ?thesis unfolding tidy_up_steps by linarith
qed

lemma empty_parens_needs: "needs ''('' empty_parens"
  by (simp add: empty_parens_def)

lemma empty_brackets_needs: "needs ''['' empty_brackets"
  by (simp add: empty_brackets_def)

lemma tidy_up_same_length:
  assumes "length (tidy_up s) = length s"
  shows "\<not> re_found False empty_parens s \<and> \<not> re_found False empty_brackets s"
proof -
  let ?s1 = "re_sub False empty_parens [] s"
  let ?s2 = "re_sub False empty_brackets [] ?s1"
  have "length (strip (squeeze ?s2)) \<le> length (squeeze ?s2)" by (rule strip_length)
  moreover have "length (squeeze ?s2) \<le> length ?s2" by (rule squeeze_length)
  moreover have l2: "length ?s2 \<le> length ?s1" by (rule re_sub_length)
  moreover have l1: "length ?s1 \<le> length s" by (rule re_sub_length)
  ultimately have "length ?s1 = length s" and same2: "length ?s2 = length ?s1"
    using assms unfolding tidy_up_steps by linarith+
  then have nf1: "\<not> re_found False empty_parens s"
    by (intro re_sub_same_length [OF caseless_paren empty_parens_needs])
  then have "?s1 = s" by (rule re_sub_not_found)
  then have "length (re_sub False empty_brackets [] s) = length s"
    using same2 by simp
  then have "\<not> re_found False empty_brackets s"
    by (intro re_sub_same_length [OF caseless_bracket empty_brackets_needs])
  then show ?thesis using nf1 by simp
qed

lemma tidy_up_not_found:
  assumes "\<not> re_found False empty_parens y" and "\<not> re_found False empty_brackets y"
    and "tidy y" and "y = [] \<or> (\<not> is_space (hd y) \<and> \<not> is_space (last y))"
  shows "tidy_up y = y"
  by (simp only: tidy_up_steps re_sub_not_found [OF assms(1)] re_sub_not_found [OF assms(2)]
        squeeze_tidy [OF assms(3)] strip_id [OF assms(4)])

text \<open>
  C4, as amended. \<open>get_base_filename\<close> applied to a base name returns it unchanged
  exactly when the base name is settled: it has no extension (its stem is the name
  itself), none of the region, special and version patterns that the function removes
  is still found in it, and neither is an empty pair of brackets.
\<close>

theorem base_filename_fixed:
  "get_base_filename (get_base_filename filename) = get_base_filename filename \<longleftrightarrow>
     settled (get_base_filename filename)"
proof
  let ?y = "get_base_filename filename"
  have slash: "CHR ''/'' \<notin> set ?y" by (rule base_no_slash)
  have y: "?y = tidy_up (strip_tags (base_stem filename))"
    by (rule get_base_filename_steps)
  {
    assume s: "settled ?y"
    then have "base_stem ?y = ?y"
      using base_stem_fixed [OF slash] by (simp add: settled_def)
    moreover have "strip_tags ?y = ?y"
      using s by (simp add: settled_def strip_tags_stripped strip_patterns_not_found)
    moreover have "tidy_up ?y = ?y"
      using s tidy_up_tidy [of "strip_tags (base_stem filename)"]
        tidy_up_ends [of "strip_tags (base_stem filename)"]
      unfolding y [symmetric] by (intro tidy_up_not_found) (simp_all add: settled_def)
    ultimately show "get_base_filename ?y = ?y"
      by (simp add: get_base_filename_steps [of ?y])
  }
  {
    assume "get_base_filename ?y = ?y"
    then have fixed: "tidy_up (strip_tags (base_stem ?y)) = ?y"
      by (simp add: get_base_filename_steps [of ?y])
    have l3: "length (tidy_up (strip_tags (base_stem ?y))) \<le> length (strip_tags (base_stem ?y))"
      by (rule tidy_up_length)
    have l2: "length (strip_tags (base_stem ?y)) \<le> length (base_stem ?y)"
      unfolding strip_tags_stripped by (rule strip_patterns_length)
    have l1: "length (base_stem ?y) \<le> length ?y"
      using slash by (rule base_stem_length)
    have "length (tidy_up (strip_tags (base_stem ?y))) = length ?y"
      using fixed by simp
    then have e1: "length (base_stem ?y) = length ?y"
      and e2: "length (strip_tags (base_stem ?y)) = length (base_stem ?y)"
      and e3: "length (tidy_up (strip_tags (base_stem ?y))) = length (strip_tags (base_stem ?y))"
      using l1 l2 l3 by linarith+
    obtain k where "base_stem ?y = take k ?y"
      using base_stem_take [OF slash] by blast
    then have b: "base_stem ?y = ?y" using e1 by (metis take_same_length)
    then have c1: "stem ?y = ?y" using base_stem_fixed [OF slash] by simp
    have "length (strip_patterns stripped_patterns ?y) = length ?y"
      using e2 b by (simp add: strip_tags_stripped)
    then have c2: "\<not> any_found stripped_patterns ?y"
      by (intro strip_patterns_same_length [OF caseless_brackets stripped_patterns_needs])
    then have t: "strip_tags ?y = ?y"
      by (simp add: strip_tags_stripped strip_patterns_not_found)
    have "length (tidy_up ?y) = length ?y" using e3 b t by simp
    then have "\<not> re_found False empty_parens ?y \<and> \<not> re_found False empty_brackets ?y"
      by (rule tidy_up_same_length)
    then show "settled ?y" using c1 c2 by (simp add: settled_def)
  }
qed

lemma disc_base: "get_base_filename ''Game (Disc 1).zip'' = ''Game (Disc 1)''"
  by code_simp

lemma disc_settled: "settled ''Game (Disc 1)''"
  by code_simp

lemma usa_europe_base: "get_base_filename ''Game (USA, Europe).zip'' = ''Game (USA, Europe)''"
  by code_simp

lemma usa_europe_settled: "settled ''Game (USA, Europe)''"
  by code_simp

theorem base_filename_fixed_witness:
  "get_base_filename ''Game (Disc 1).zip'' = ''Game (Disc 1)'' \<and>
   settled ''Game (Disc 1)'' \<and>
   get_base_filename ''Game (Disc 1)'' = ''Game (Disc 1)'' \<and>
   get_base_filename ''Game (USA, Europe).zip'' = ''Game (USA, Europe)'' \<and>
   settled ''Game (USA, Europe)'' \<and>
   get_base_filename ''Game (USA, Europe)'' = ''Game (USA, Europe)''"
  using base_filename_fixed [of "''Game (Disc 1).zip''"]
    base_filename_fixed [of "''Game (USA, Europe).zip''"]
  by (simp add: disc_base disc_settled usa_europe_base usa_europe_settled)

lemma nested_base: "get_base_filename ''Game ((USA)USA).zip'' = ''Game (USA)''"
  by code_simp

lemma nested_base_again: "get_base_filename ''Game (USA)'' = ''Game''"
  by code_simp

lemma mario_base: "get_base_filename ''Dr. Mario (USA).nes'' = ''Dr. Mario''"
  by code_simp

lemma mario_base_again: "get_base_filename ''Dr. Mario'' = ''Dr''"
  by code_simp

text \<open>
  The base name of \<open>Game ((USA)USA).zip\<close> is \<open>Game (USA)\<close>, which a second run of the
  tag-stripping passes turns into \<open>Game\<close>; the base name of \<open>Dr. Mario (USA).nes\<close> is
  \<open>Dr. Mario\<close>, of which a second application takes \<open>. Mario\<close> for an extension.
\<close>

theorem base_filename_counterexample:
  "get_base_filename (get_base_filename ''Game ((USA)USA).zip'') \<noteq> get_base_filename ''Game ((USA)USA).zip'' \<and>
   get_base_filename (get_base_filename ''Dr. Mario (USA).nes'') \<noteq> get_base_filename ''Dr. Mario (USA).nes''"
  by (simp add: nested_base nested_base_again mario_base mario_base_again)

lemma game_usa_base: "get_base_filename ''Game (USA).zip'' = ''Game''"
  by code_simp

lemma game_europe_beta_base: "get_base_filename ''Game (Europe) (Beta).zip'' = ''Game''"
  by code_simp

lemma has_translation_usa_europe: "\<not> has_translation ''Game (USA, Europe).zip''"
  by code_simp

lemma usa_europe_found: "found_regions ''Game (USA, Europe).zip'' = [''USA'', ''Europe'']"
  by code_simp

lemma has_translation_bracket_usa: "\<not> has_translation ''Game [USA].zip''"
  by code_simp

lemma bracket_usa_found: "found_regions ''Game [USA].zip'' = [''USA'']"
  by code_simp

lemma bracket_usa_base: "get_base_filename ''Game [USA].zip'' = ''Game [USA]''"
  by code_simp

lemma no_bracket_region_pattern:
  "filter (starts_lit CHR ''['') (concat (map snd region_patterns)) = []"
  by code_simp

text \<open>
  C5. \<open>Game (USA).zip\<close> and \<open>Game (Europe) (Beta).zip\<close> have the same base name, as the
  comment of \<open>get_base_filename\<close> announces for names that differ in their region and
  special tags. But only a region tag that one parenthesised pattern matches is removed:
  \<open>Game (USA, Europe).zip\<close> and \<open>Game [USA].zip\<close>, in which \<open>detect_regions\<close> reads the
  regions USA and Europe, and USA, keep their tag and do not get the base name of
  \<open>Game (USA).zip\<close>. No region pattern starts with an escaped square bracket, so the
  branch of \<open>get_base_filename\<close> that removes a bracketed region tag is never taken.
\<close>

theorem region_tag_not_removed:
  "get_base_filename ''Game (USA).zip'' = ''Game'' \<and>
   get_base_filename ''Game (Europe) (Beta).zip'' = ''Game'' \<and>
   fst (detect_regions new_analyzer ''Game (USA, Europe).zip'') = [''USA'', ''Europe''] \<and>
   get_base_filename ''Game (USA, Europe).zip'' = ''Game (USA, Europe)'' \<and>
   fst (detect_regions new_analyzer ''Game [USA].zip'') = [''USA''] \<and>
   get_base_filename ''Game [USA].zip'' = ''Game [USA]'' \<and>
   filter (starts_lit CHR ''['') (concat (map snd region_patterns)) = []"
  by (simp add: detect_regions_fst usa_europe_found usa_europe_base game_usa_base
        game_europe_beta_base bracket_usa_found bracket_usa_base no_bracket_region_pattern
        translation_rule_def default_rule_def has_translation_usa_europe
        has_translation_bracket_usa)

end
